theory Spec2Isabelle
  imports Complex_Main "HOL-Library.Sublist"
begin

section \<open>Library functions the script calls\<close>

subsection \<open>Paths: \<^verbatim>\<open>posixpath.normpath\<close>, \<^verbatim>\<open>join\<close>, \<^verbatim>\<open>abspath\<close>\<close>

text \<open>
  Strings are byte lists. \<^verbatim>\<open>str.split('/')\<close> always yields at least one component;
  \<^verbatim>\<open>'/'.join\<close> is its inverse on lists of slash-free components.
\<close>

fun split_sep :: "string \<Rightarrow> string list" where
  "split_sep [] = [[]]"
| "split_sep (c # cs) =
     (if c = CHR ''/'' then [] # split_sep cs
      else (case split_sep cs of w # ws \<Rightarrow> (c # w) # ws | [] \<Rightarrow> [[c]]))"

fun join_sep :: "string list \<Rightarrow> string" where
  "join_sep [] = []"
| "join_sep [w] = w"
| "join_sep (w # ws) = w @ CHR ''/'' # join_sep ws"

text \<open>
  The component loop of \<^verbatim>\<open>normpath\<close>:
  \<^verbatim>\<open>
    for comp in comps:
        if comp in (empty, dot): continue
        if (comp != dotdot or (not initial_slashes and not new_comps) or
             (new_comps and new_comps[-1] == dotdot)):
            new_comps.append(comp)
        elif new_comps:
            new_comps.pop()
  \<close>
\<close>

fun norm_comps :: "bool \<Rightarrow> string list \<Rightarrow> string list \<Rightarrow> string list" where
  "norm_comps initial_slashes [] new_comps = new_comps"
| "norm_comps initial_slashes (cmp # comps) new_comps =
     (if cmp = [] \<or> cmp = ''.'' then norm_comps initial_slashes comps new_comps
      else if cmp \<noteq> ''..'' \<or> (\<not> initial_slashes \<and> new_comps = [])
                \<or> (new_comps \<noteq> [] \<and> last new_comps = ''..'')
        then norm_comps initial_slashes comps (new_comps @ [cmp])
      else if new_comps \<noteq> [] then norm_comps initial_slashes comps (butlast new_comps)
      else norm_comps initial_slashes comps new_comps)"

definition initial_slashes_of :: "string \<Rightarrow> nat" where
  "initial_slashes_of path =
     (if prefix ''/'' path
      then (if prefix ''//'' path \<and> \<not> prefix ''///'' path then 2 else 1)
      else 0)"

definition normpath :: "string \<Rightarrow> string" where
  "normpath path =
     (if path = [] then ''.''
      else let n = initial_slashes_of path;
               comps = norm_comps (n \<noteq> 0) (split_sep path) [];
               p = replicate n CHR ''/'' @ join_sep comps
           in if p = [] then ''.'' else p)"

definition isabs :: "string \<Rightarrow> bool" where
  "isabs path = prefix ''/'' path"

definition join_path :: "string \<Rightarrow> string \<Rightarrow> string" where
  "join_path a b =
     (if prefix ''/'' b then b
      else if a = [] \<or> suffix ''/'' a then a @ b
      else a @ ''/'' @ b)"

text \<open>\<^verbatim>\<open>os.path.abspath\<close>, with the working directory \<open>cwd\<close> that \<^verbatim>\<open>os.getcwd()\<close> returns.\<close>

definition abspath :: "string \<Rightarrow> string \<Rightarrow> string" where
  "abspath cwd path = normpath (if \<not> isabs path then join_path cwd path else path)"

subsection \<open>Regular expressions: \<^verbatim>\<open>re.match\<close> on the script's patterns\<close>

text \<open>
  Every pattern of the script is a sequence of literal characters, \<^verbatim>\<open>.*\<close> and one
  capturing \<^verbatim>\<open>(.*)\<close>. \<open>re_match\<close> is Python's backtracking matcher on that fragment:
  anchored at the start of the string and not at its end, \<^verbatim>\<open>.\<close> matching every
  character but the newline, and \<^verbatim>\<open>*\<close> greedy (the longest run is tried first, then
  shorter ones). The result is \<open>None\<close> when there is no match and otherwise
  \<open>Some g\<close> with \<open>g\<close> the text of group 1.
\<close>

datatype item = Ch char | DotStar | Group

definition newline :: char where
  "newline = CHR 0x0A"

fun re_match :: "item list \<Rightarrow> string \<Rightarrow> string option" where
  "re_match [] s = Some []"
| "re_match (Ch c # ps) [] = None"
| "re_match (Ch c # ps) (x # xs) = (if x = c then re_match ps xs else None)"
| "re_match (DotStar # ps) [] = re_match ps []"
| "re_match (DotStar # ps) (x # xs) =
     (if x = newline then re_match ps (x # xs)
      else (case re_match (DotStar # ps) xs of
              Some g \<Rightarrow> Some g
            | None \<Rightarrow> re_match ps (x # xs)))"
| "re_match (Group # ps) [] = re_match ps []"
| "re_match (Group # ps) (x # xs) =
     (if x = newline then re_match ps (x # xs)
      else (case re_match (Group # ps) xs of
              Some g \<Rightarrow> Some (x # g)
            | None \<Rightarrow> re_match ps (x # xs)))"

definition lit :: "string \<Rightarrow> item list" where
  "lit s = map Ch s"

definition dquote :: char where
  "dquote = CHR 0x22"

text \<open>
  The five path patterns of \<^verbatim>\<open>generate_deps\<close>, in the order of the source list:
  \<^verbatim>\<open>.*open\("(.*)", .*\<close>, \<^verbatim>\<open>.*stat64\("(.*)", .*\<close>, \<^verbatim>\<open>.*rename\(".*", "(.*)"\<close>,
  \<^verbatim>\<open>.*stat\("(.*)", .*\<close>, \<^verbatim>\<open>.*openat\(AT_FDCWD, "(.*)", .*\<close>
  (\<open>dquote\<close> is the double quote).
\<close>

definition regexes :: "item list list" where
  "regexes =
     [DotStar # lit ''open('' @ [Ch dquote, Group, Ch dquote] @ lit '', '' @ [DotStar],
      DotStar # lit ''stat64('' @ [Ch dquote, Group, Ch dquote] @ lit '', '' @ [DotStar],
      DotStar # lit ''rename('' @ [Ch dquote, DotStar, Ch dquote] @ lit '', ''
        @ [Ch dquote, Group, Ch dquote],
      DotStar # lit ''stat('' @ [Ch dquote, Group, Ch dquote] @ lit '', '' @ [DotStar],
      DotStar # lit ''openat(AT_FDCWD, '' @ [Ch dquote, Group, Ch dquote] @ lit '', ''
        @ [DotStar]]"

text \<open>The exit pattern \<^verbatim>\<open>.*exit_group\((.*)\).*\<close>.\<close>

definition exit_regex :: "item list" where
  "exit_regex = DotStar # lit ''exit_group('' @ [Group] @ lit '')'' @ [DotStar]"

subsection \<open>\<^verbatim>\<open>int(str)\<close> on ASCII text\<close>

text \<open>
  Python's \<^verbatim>\<open>int\<close> strips surrounding whitespace, reads an optional sign and then decimal
  digits, single underscores allowed between digits; anything else is a
  \<^verbatim>\<open>ValueError\<close> (\<open>None\<close>). Digits outside ASCII are not modelled. The engine takes
  the conversion as a parameter (\<open>to_int\<close> below) and \<open>py_int\<close> is the instance used for
  concrete runs.
\<close>

definition is_space :: "char \<Rightarrow> bool" where
  "is_space c = (c = CHR '' '' \<or> (9 \<le> (of_char c :: nat) \<and> (of_char c :: nat) \<le> 13)
                 \<or> (28 \<le> (of_char c :: nat) \<and> (of_char c :: nat) \<le> 31))"

definition is_digit :: "char \<Rightarrow> bool" where
  "is_digit c = (48 \<le> (of_char c :: nat) \<and> (of_char c :: nat) \<le> 57)"

definition digit_val :: "char \<Rightarrow> int" where
  "digit_val c = int (of_char c) - 48"

definition strip :: "string \<Rightarrow> string" where
  "strip s = rev (dropWhile is_space (rev (dropWhile is_space s)))"

fun parse_digits :: "string \<Rightarrow> int \<Rightarrow> int option" where
  "parse_digits [] acc = Some acc"
| "parse_digits (c # cs) acc =
     (if is_digit c then parse_digits cs (10 * acc + digit_val c)
      else if c = CHR ''_'' \<and> cs \<noteq> [] \<and> is_digit (hd cs) then parse_digits cs acc
      else None)"

definition py_int :: "string \<Rightarrow> int option" where
  "py_int s =
     (let t = strip s;
          neg = (t \<noteq> [] \<and> hd t = CHR ''-'');
          u = (if t \<noteq> [] \<and> (hd t = CHR ''-'' \<or> hd t = CHR ''+'') then tl t else t)
      in if u \<noteq> [] \<and> is_digit (hd u)
         then map_option (\<lambda>n. if neg then - n else n) (parse_digits u 0)
         else None)"

subsection \<open>Text files: \<^verbatim>\<open>readlines\<close> with universal newlines\<close>

definition carriage_return :: char where
  "carriage_return = CHR 0x0D"

fun readlines_from :: "string \<Rightarrow> string \<Rightarrow> string list" where
  "readlines_from cur [] = (if cur = [] then [] else [cur])"
| "readlines_from cur (c # cs) =
     (if c = newline then (cur @ [newline]) # readlines_from [] cs
      else if c = carriage_return
        then (cur @ [newline]) # readlines_from [] (if cs \<noteq> [] \<and> hd cs = newline then tl cs else cs)
      else readlines_from (cur @ [c]) cs)"

definition readlines :: "string \<Rightarrow> string list" where
  "readlines text = readlines_from [] text"

subsection \<open>\<^verbatim>\<open>shlex.quote\<close>\<close>

definition is_safe_char :: "char \<Rightarrow> bool" where
  "is_safe_char c =
     (let n = (of_char c :: nat)
      in (48 \<le> n \<and> n \<le> 57) \<or> (65 \<le> n \<and> n \<le> 90) \<or> (97 \<le> n \<and> n \<le> 122)
         \<or> c \<in> set ''_@%+=:,./-'')"

definition shlex_quote :: "string \<Rightarrow> string" where
  "shlex_quote s =
     (if s = [] then [CHR 0x27, CHR 0x27]
      else if list_all is_safe_char s then s
      else [CHR 0x27]
           @ concat (map (\<lambda>c. if c = CHR 0x27
                               then [CHR 0x27, dquote, CHR 0x27, dquote, CHR 0x27]
                               else [c]) s)
           @ [CHR 0x27])"

fun join_space :: "string list \<Rightarrow> string" where
  "join_space [] = []"
| "join_space [w] = w"
| "join_space (w # ws) = w @ CHR '' '' # join_space ws"

section \<open>The world the script runs in\<close>

text \<open>
  A file modification time is a finite double, hence a rational. The file table is
  indexed by the path string handed to the system call (the process never changes its
  working directory). A regular file carries its bytes, its modification time and
  whether this process may read and write it; every other kind of node (a directory)
  can be \<^verbatim>\<open>stat\<close>ed but not opened as a file.
\<close>

type_synonym timestamp = rat

datatype node =
    RegFile (content: string) (node_mtime: timestamp) (readable: bool) (writable: bool)
  | OtherNode timestamp

record filesys =
  nodes :: "string \<Rightarrow> node option"
  creatable :: "string \<Rightarrow> bool"
  cwd :: string
  now :: timestamp

datatype pyerr = OSError | ValueError | UnpicklingError

text \<open>\<^verbatim>\<open>open(p, 'rb')\<close> followed by reading to the end; \<open>None\<close> is any exception.\<close>

definition read_bytes :: "filesys \<Rightarrow> string \<Rightarrow> string option" where
  "read_bytes fs p =
     (case nodes fs p of
        Some (RegFile c t r w) \<Rightarrow> if r then Some c else None
      | _ \<Rightarrow> None)"

definition getmtime :: "filesys \<Rightarrow> string \<Rightarrow> timestamp option" where
  "getmtime fs p =
     (case nodes fs p of
        Some (RegFile c t r w) \<Rightarrow> Some t
      | Some (OtherNode t) \<Rightarrow> Some t
      | None \<Rightarrow> None)"

definition isfile :: "filesys \<Rightarrow> string \<Rightarrow> bool" where
  "isfile fs p = (case nodes fs p of Some (RegFile c t r w) \<Rightarrow> True | _ \<Rightarrow> False)"

text \<open>\<^verbatim>\<open>open(p, 'wb')\<close>, one write, \<^verbatim>\<open>close\<close>: the file is created or truncated.\<close>

definition write_bytes :: "filesys \<Rightarrow> string \<Rightarrow> string \<Rightarrow> pyerr + filesys" where
  "write_bytes fs p data =
     (case nodes fs p of
        Some (RegFile c t r w) \<Rightarrow>
          if w then Inr (fs\<lparr>nodes := (nodes fs)(p \<mapsto> RegFile data (now fs) r w)\<rparr>)
          else Inl OSError
      | Some (OtherNode t) \<Rightarrow> Inl OSError
      | None \<Rightarrow>
          if creatable fs p
          then Inr (fs\<lparr>nodes := (nodes fs)(p \<mapsto> RegFile data (now fs) True True)\<rparr>)
          else Inl OSError)"

definition remove :: "filesys \<Rightarrow> string \<Rightarrow> filesys" where
  "remove fs p = fs\<lparr>nodes := (nodes fs)(p := None)\<rparr>"

text \<open>
  A stored record is the tuple \<^verbatim>\<open>(fname, hash_digest, mtime)\<close>: the digest is a hex
  string or \<^verbatim>\<open>None\<close>, the time a float or the string \<^verbatim>\<open>'bad_modtime'\<close>. The store is
  the dictionary from command strings to record lists.
\<close>

datatype mtime_val = MTime timestamp | BadModtime

type_synonym file_record = "string \<times> string option \<times> mtime_val"

type_synonym deps = "string \<rightharpoonup> file_record list"

text \<open>
  What the script takes from libraries and the operating system and no claim looks
  into: the SHA-256 hasher of \<^verbatim>\<open>hashlib\<close>, \<^verbatim>\<open>int\<close>, \<^verbatim>\<open>pickle\<close> (loading yields \<open>None\<close>
  where \<^verbatim>\<open>pickle.load\<close> raises), \<^verbatim>\<open>tempfile.mktemp\<close> and the effect of
  \<^verbatim>\<open>subprocess.call\<close> on the file system.
\<close>

record 'h env =
  hash_new :: 'h
  hash_update :: "'h \<Rightarrow> string \<Rightarrow> 'h"
  hash_hexdigest :: "'h \<Rightarrow> string"
  to_int :: "string \<Rightarrow> int option"
  pickle_dumps :: "deps \<Rightarrow> string"
  pickle_loads :: "string \<Rightarrow> deps option"
  mktemp :: "filesys \<Rightarrow> string"
  subprocess_call :: "string \<Rightarrow> filesys \<Rightarrow> filesys"

text \<open>The module globals set from the command line, and \<^verbatim>\<open>args.verbose\<close>.\<close>

record config =
  opt_use_modtime :: bool
  opt_dirs :: "string list"
  ignore_dirs :: "string list option"
  verbose :: bool

text \<open>Each \<^verbatim>\<open>print\<close> of the script is one message.\<close>

datatype msg =
    NoFilesYet
  | FileModtimeChanged string
  | FileHashChanged string
  | Ignoring string
  | Including string
  | Running string
  | StraceOutputSavedIn string
  | FilesUsed "file_record list option"
  | UpToDate string
  | ErrorCommandRequired
  | HelpText
  | VCommand "string list"
  | VCommandString string
  | VIgnoringTrees "string list option"
  | VMonitoringTrees "string list"
  | VUsingTimestamps bool
  | VDependenciesFile string

definition say :: "config \<Rightarrow> msg \<Rightarrow> msg list" where
  "say cfg m = (if verbose cfg then [m] else [])"

section \<open>The script\<close>

subsection \<open>\<^verbatim>\<open>hash_file\<close> and \<^verbatim>\<open>modtime\<close>\<close>

definition blocksize :: nat where
  "blocksize = 65536"

function hash_blocks :: "'h env \<Rightarrow> 'h \<Rightarrow> string \<Rightarrow> 'h" where
  "hash_blocks e hasher rest =
     (let buf = take blocksize rest
      in if length buf > 0
         then hash_blocks e (hash_update e hasher buf) (drop blocksize rest)
         else hasher)"
  by pat_completeness auto
termination
  by (relation "measure (\<lambda>(e, hasher, rest). length rest)") (auto simp: blocksize_def)

declare hash_blocks.simps [simp del]

definition hash_file :: "'h env \<Rightarrow> filesys \<Rightarrow> string \<Rightarrow> string option" where
  "hash_file e fsys fname =
     (case read_bytes fsys fname of
        None \<Rightarrow> None
      | Some data \<Rightarrow> Some (hash_hexdigest e (hash_blocks e (hash_new e) data)))"

definition modtime :: "filesys \<Rightarrow> string \<Rightarrow> mtime_val" where
  "modtime fsys fname =
     (case getmtime fsys fname of Some t \<Rightarrow> MTime t | None \<Rightarrow> BadModtime)"

subsection \<open>\<^verbatim>\<open>files_up_to_date\<close>\<close>

fun files_loop :: "'h env \<Rightarrow> config \<Rightarrow> filesys \<Rightarrow> file_record list \<Rightarrow> bool \<times> msg list" where
  "files_loop e cfg fsys [] = (True, [])"
| "files_loop e cfg fsys ((fname, hash_digest, mtime) # rest) =
     (if opt_use_modtime cfg
      then (if modtime fsys fname \<noteq> mtime
            then (False, say cfg (FileModtimeChanged fname))
            else files_loop e cfg fsys rest)
      else (if hash_file e fsys fname \<noteq> hash_digest
            then (False, say cfg (FileHashChanged fname))
            else files_loop e cfg fsys rest))"

definition files_up_to_date ::
  "'h env \<Rightarrow> config \<Rightarrow> filesys \<Rightarrow> file_record list option \<Rightarrow> bool \<times> msg list" where
  "files_up_to_date e cfg fsys files =
     (case files of
        None \<Rightarrow> (False, say cfg NoFilesYet)
      | Some fl \<Rightarrow> files_loop e cfg fsys fl)"

subsection \<open>\<^verbatim>\<open>is_relevant\<close>\<close>

text \<open>
  Both loops of \<^verbatim>\<open>is_relevant\<close> have the same shape: the first directory whose absolute
  path is a string prefix of \<open>path1\<close> ends the loop.
\<close>

fun dir_loop :: "string \<Rightarrow> string \<Rightarrow> string list \<Rightarrow> bool" where
  "dir_loop wd path1 [] = False"
| "dir_loop wd path1 (d # ds) =
     (let path2 = abspath wd d
      in if prefix path2 path1 then True else dir_loop wd path1 ds)"

definition is_relevant :: "config \<Rightarrow> filesys \<Rightarrow> string \<Rightarrow> bool \<times> msg list" where
  "is_relevant cfg fsys fname =
     (let path1 = abspath (cwd fsys) fname
      in if (case ignore_dirs cfg of
               None \<Rightarrow> False
             | Some ds \<Rightarrow> ds \<noteq> [] \<and> dir_loop (cwd fsys) path1 ds)
         then (False, say cfg (Ignoring path1))
         else if dir_loop (cwd fsys) path1 (opt_dirs cfg)
         then (True, say cfg (Including path1))
         else (False, []))"

subsection \<open>\<^verbatim>\<open>generate_deps\<close>\<close>

text \<open>
  The state of the parsing loop is \<^verbatim>\<open>status\<close>, \<^verbatim>\<open>files\<close>, \<^verbatim>\<open>files_dict\<close> and what
  has been printed. \<open>match_body\<close> is the block under \<^verbatim>\<open>if match:\<close> for a path pattern;
  the conjunction short-cuts, so \<^verbatim>\<open>is_relevant\<close> prints only for a name not yet in
  \<^verbatim>\<open>files_dict\<close>.
\<close>

type_synonym pstate = "int \<times> file_record list \<times> (string \<rightharpoonup> bool) \<times> msg list"

definition match_body ::
  "'h env \<Rightarrow> config \<Rightarrow> filesys \<Rightarrow> string \<Rightarrow> pstate \<Rightarrow> pstate" where
  "match_body e cfg fsys group1 st =
     (case st of (status, files, files_dict, out) \<Rightarrow>
        let fname = normpath group1
        in if files_dict fname = None
           then (case is_relevant cfg fsys fname of (relevant, msgs) \<Rightarrow>
                   if relevant \<and> isfile fsys fname
                   then (status,
                         files @ [(fname, hash_file e fsys fname, modtime fsys fname)],
                         files_dict(fname \<mapsto> True),
                         out @ msgs)
                   else (status, files, files_dict, out @ msgs))
           else st)"

text \<open>
  The inner loop \<^verbatim>\<open>for regex in regexes\<close>: the path pattern is tried, and then, still
  inside the loop, the exit pattern; \<^verbatim>\<open>int\<close> may raise. No iteration ends the loop
  early.
\<close>

fun regex_loop ::
  "'h env \<Rightarrow> config \<Rightarrow> filesys \<Rightarrow> string \<Rightarrow> item list list \<Rightarrow> pstate \<Rightarrow> pyerr + pstate" where
  "regex_loop e cfg fsys line [] st = Inr st"
| "regex_loop e cfg fsys line (regex # rest) st =
     (let st1 = (case re_match regex line of
                   Some group1 \<Rightarrow> match_body e cfg fsys group1 st
                 | None \<Rightarrow> st)
      in case re_match exit_regex line of
           None \<Rightarrow> regex_loop e cfg fsys line rest st1
         | Some group1 \<Rightarrow>
             (case to_int e group1 of
                None \<Rightarrow> Inl ValueError
              | Some n \<Rightarrow>
                  (case st1 of (status, files, files_dict, out) \<Rightarrow>
                     regex_loop e cfg fsys line rest (n, files, files_dict, out))))"

fun line_loop ::
  "'h env \<Rightarrow> config \<Rightarrow> filesys \<Rightarrow> string list \<Rightarrow> pstate \<Rightarrow> pyerr + pstate" where
  "line_loop e cfg fsys [] st = Inr st"
| "line_loop e cfg fsys (line # rest) st =
     (case regex_loop e cfg fsys line regexes st of
        Inl err \<Rightarrow> Inl err
      | Inr st1 \<Rightarrow> line_loop e cfg fsys rest st1)"

text \<open>
  The parser proper: from \<^verbatim>\<open>status = 0\<close> to \<^verbatim>\<open>return status, files\<close>, on the lines
  read back from the trace file.
\<close>

definition parse_trace ::
  "'h env \<Rightarrow> config \<Rightarrow> filesys \<Rightarrow> string list
     \<Rightarrow> pyerr + ((int \<times> file_record list) \<times> msg list)" where
  "parse_trace e cfg fsys output =
     (case line_loop e cfg fsys output (0, [], Map.empty, []) of
        Inl err \<Rightarrow> Inl err
      | Inr (status, files, files_dict, out) \<Rightarrow> Inr ((status, files), out))"

definition strace_command :: "string \<Rightarrow> string \<Rightarrow> string" where
  "strace_command strace_output_filename cmd =
     ''strace -f -o '' @ strace_output_filename @ '' -e trace=file,exit_group '' @ cmd"

text \<open>
  An exception leaves with the shell commands run before it. A normal return gives
  \<^verbatim>\<open>(status, files)\<close>, the file system afterwards, the messages printed and the shell
  commands run.
\<close>

definition generate_deps ::
  "'h env \<Rightarrow> config \<Rightarrow> string \<Rightarrow> filesys
     \<Rightarrow> (pyerr \<times> string list)
         + ((int \<times> file_record list) \<times> filesys \<times> msg list \<times> string list)" where
  "generate_deps e cfg cmd fsys =
     (let strace_output_filename = mktemp e fsys;
          wholecmd = strace_command strace_output_filename cmd;
          fs1 = subprocess_call e wholecmd fsys
      in case read_bytes fs1 strace_output_filename of
           None \<Rightarrow> Inl (OSError, [wholecmd])
         | Some text \<Rightarrow>
             let output = readlines text;
                 fs2 = remove fs1 strace_output_filename
             in (case parse_trace e cfg fs2 output of
                   Inl err \<Rightarrow> Inl (err, [wholecmd])
                 | Inr (res, out) \<Rightarrow>
                     Inr (res, fs2,
                          say cfg (Running cmd)
                            @ say cfg (StraceOutputSavedIn strace_output_filename) @ out,
                          [wholecmd])))"

subsection \<open>\<^verbatim>\<open>read_deps\<close> and \<^verbatim>\<open>write_deps\<close>\<close>

text \<open>Only \<^verbatim>\<open>open\<close> is inside the \<^verbatim>\<open>try\<close>; \<^verbatim>\<open>pickle.load\<close> is not.\<close>

definition read_deps :: "'h env \<Rightarrow> filesys \<Rightarrow> string \<Rightarrow> pyerr + deps" where
  "read_deps e fsys depsname =
     (case read_bytes fsys depsname of
        None \<Rightarrow> Inr Map.empty
      | Some data \<Rightarrow>
          (case pickle_loads e data of
             None \<Rightarrow> Inl UnpicklingError
           | Some d \<Rightarrow> Inr d))"

definition write_deps :: "'h env \<Rightarrow> filesys \<Rightarrow> string \<Rightarrow> deps \<Rightarrow> pyerr + filesys" where
  "write_deps e fsys depsname d = write_bytes fsys depsname (pickle_dumps e d)"

subsection \<open>\<^verbatim>\<open>memoize_with_deps\<close>\<close>

record outcome =
  exit_status :: int
  store :: deps
  disk :: filesys
  printed :: "msg list"
  executed :: "string list"

text \<open>\<^verbatim>\<open>files and files_up_to_date(files)\<close>: \<^verbatim>\<open>None\<close> and the empty list are both false.\<close>

definition memoize_with_deps ::
  "'h env \<Rightarrow> config \<Rightarrow> string \<Rightarrow> deps \<Rightarrow> string \<Rightarrow> filesys
     \<Rightarrow> (pyerr \<times> string list) + outcome" where
  "memoize_with_deps e cfg depsname d cmd fsys =
     (let files = d cmd;
          out0 = say cfg (FilesUsed files)
      in case (if files \<noteq> None \<and> files \<noteq> Some []
               then files_up_to_date e cfg fsys files
               else (False, [])) of
           (up_to_date, out1) \<Rightarrow>
             if up_to_date
             then Inr \<lparr>exit_status = 0, store = d, disk = fsys,
                       printed = out0 @ out1 @ [UpToDate cmd], executed = []\<rparr>
             else (case generate_deps e cfg cmd fsys of
                     Inl err \<Rightarrow> Inl err
                   | Inr ((status, files1), fs1, out2, cmds) \<Rightarrow>
                       let d1 = (if status = 0 then d(cmd \<mapsto> files1)
                                 else if d cmd \<noteq> None then d(cmd := None)
                                 else d)
                       in (case write_deps e fs1 depsname d1 of
                             Inl err \<Rightarrow> Inl (err, cmds)
                           | Inr fs2 \<Rightarrow>
                               Inr \<lparr>exit_status = status, store = d1, disk = fs2,
                                     printed = out0 @ out1 @ out2, executed = cmds\<rparr>)))"

subsection \<open>The main program\<close>

text \<open>
  \<^verbatim>\<open>argparse\<close> is taken after tokenisation: the options in command-line order and the
  remaining words. Each action works on the namespace that holds the defaults:
  \<^verbatim>\<open>store_true\<close> sets the flag, \<^verbatim>\<open>store\<close> replaces the value, and \<^verbatim>\<open>append\<close> copies the
  current list (the default, when there is one) and appends to the copy.
\<close>

datatype cli_opt =
    OptTimestamps
  | OptDirectory string
  | OptIgnore string
  | OptVerbose
  | OptFilename string

record args =
  timestamps :: bool
  directory :: "string list"
  ignore :: "string list option"
  verbose_flag :: bool
  filename :: string
  command :: "string list"

definition default_args :: args where
  "default_args =
     \<lparr>timestamps = False, directory = [''.''], ignore = None, verbose_flag = False,
      filename = ''.deps3'', command = []\<rparr>"

fun apply_opt :: "args \<Rightarrow> cli_opt \<Rightarrow> args" where
  "apply_opt a OptTimestamps = a\<lparr>timestamps := True\<rparr>"
| "apply_opt a (OptDirectory x) = a\<lparr>directory := directory a @ [x]\<rparr>"
| "apply_opt a (OptIgnore x) =
     a\<lparr>ignore := Some ((case ignore a of None \<Rightarrow> [] | Some xs \<Rightarrow> xs) @ [x])\<rparr>"
| "apply_opt a OptVerbose = a\<lparr>verbose_flag := True\<rparr>"
| "apply_opt a (OptFilename x) = a\<lparr>filename := x\<rparr>"

definition parse_args :: "cli_opt list \<Rightarrow> string list \<Rightarrow> args" where
  "parse_args opts words = (foldl apply_opt default_args opts)\<lparr>command := words\<rparr>"

text \<open>The globals the functions read, as the main program sets them.\<close>

definition config_of :: "args \<Rightarrow> config" where
  "config_of a =
     \<lparr>opt_use_modtime = timestamps a, opt_dirs = directory a, ignore_dirs = ignore a,
      verbose = verbose_flag a\<rparr>"

definition main ::
  "'h env \<Rightarrow> cli_opt list \<Rightarrow> string list \<Rightarrow> filesys \<Rightarrow> (pyerr \<times> string list) + outcome" where
  "main e opts words fsys =
     (let a = parse_args opts words;
          command_string = join_space (map shlex_quote (command a))
      in if command_string = []
         then Inr \<lparr>exit_status = 1, store = Map.empty, disk = fsys,
                   printed = [ErrorCommandRequired, HelpText], executed = []\<rparr>
         else let cfg = config_of a;
                  out = say cfg (VCommand (command a)) @ say cfg (VCommandString command_string)
                        @ say cfg (VIgnoringTrees (ignore a))
                        @ say cfg (VMonitoringTrees (directory a))
                        @ say cfg (VUsingTimestamps (timestamps a))
                        @ say cfg (VDependenciesFile (filename a))
              in (case read_deps e fsys (filename a) of
                    Inl err \<Rightarrow> Inl (err, [])
                  | Inr default_deps \<Rightarrow>
                      (case memoize_with_deps e cfg (filename a) default_deps command_string fsys of
                         Inl err \<Rightarrow> Inl err
                       | Inr r \<Rightarrow> Inr (r\<lparr>printed := out @ printed r\<rparr>))))"

section \<open>Vocabulary of the statements and concrete runs\<close>

text \<open>
  A stand-in for the libraries, for running the model on concrete inputs: the digest of
  a file is its bytes, the only well-formed pickle is the blob \<open>''pickle''\<close> (which holds
  the store \<open>d0\<close>), the temporary name is fixed, and the traced command changes nothing
  but the trace file, where it leaves \<open>trace\<close>.
\<close>

definition demo_env :: "string \<Rightarrow> deps \<Rightarrow> string env" where
  "demo_env trace d0 =
     \<lparr>hash_new = [], hash_update = (\<lambda>h buf. h @ buf), hash_hexdigest = (\<lambda>h. h),
      to_int = py_int,
      pickle_dumps = (\<lambda>d. ''pickle''),
      pickle_loads = (\<lambda>s. if s = ''pickle'' then Some d0 else None),
      mktemp = (\<lambda>f. ''/tmp/trace''),
      subprocess_call =
        (\<lambda>c f. f\<lparr>nodes := (nodes f)(''/tmp/trace'' \<mapsto> RegFile trace (now f) True True)\<rparr>)\<rparr>"

definition demo_fs :: "(string \<rightharpoonup> node) \<Rightarrow> filesys" where
  "demo_fs tbl = \<lparr>nodes = tbl, creatable = (\<lambda>p. True), cwd = ''/w'', now = 9\<rparr>"

definition demo_cfg :: "string list \<Rightarrow> string list option \<Rightarrow> bool \<Rightarrow> config" where
  "demo_cfg incl excl ts =
     \<lparr>opt_use_modtime = ts, opt_dirs = incl, ignore_dirs = excl, verbose = False\<rparr>"

text \<open>The directories given with \<^verbatim>\<open>--directory\<close>, in command-line order.\<close>

fun supplied_directories :: "cli_opt list \<Rightarrow> string list" where
  "supplied_directories [] = []"
| "supplied_directories (OptDirectory x # rest) = x # supplied_directories rest"
| "supplied_directories (opt # rest) = supplied_directories rest"

text \<open>The exclude roots: none when \<^verbatim>\<open>--ignore\<close> was never given.\<close>

definition exclude_roots :: "config \<Rightarrow> string list" where
  "exclude_roots cfg = (case ignore_dirs cfg of None \<Rightarrow> [] | Some ds \<Rightarrow> ds)"

definition demo_store :: deps where
  "demo_store = [''make'' \<mapsto> [(''a.c'', Some ''int x;'', MTime 5)]]"

text \<open>
  The states of a store path: it cannot be opened for reading (absent, not readable,
  or not a regular file); it holds a pickle of \<open>d\<close>; it can be written and read back.
\<close>

definition unopenable :: "filesys \<Rightarrow> string \<Rightarrow> bool" where
  "unopenable fsys p =
     (case nodes fsys p of
        None \<Rightarrow> True
      | Some (RegFile c t r w) \<Rightarrow> \<not> r
      | Some (OtherNode t) \<Rightarrow> True)"

definition holds_pickle :: "'h env \<Rightarrow> filesys \<Rightarrow> string \<Rightarrow> deps \<Rightarrow> bool" where
  "holds_pickle e fsys p d =
     (case nodes fsys p of
        Some (RegFile c t r w) \<Rightarrow> r \<and> pickle_loads e c = Some d
      | _ \<Rightarrow> False)"

definition store_usable :: "filesys \<Rightarrow> string \<Rightarrow> bool" where
  "store_usable fsys p =
     (case nodes fsys p of
        None \<Rightarrow> creatable fsys p
      | Some (RegFile c t r w) \<Rightarrow> r \<and> w
      | Some (OtherNode t) \<Rightarrow> False)"

text \<open>
  The staleness check in the words of the claims: a record is unchanged when the
  fingerprint of the active mode, computed now, equals the stored one; a HIT needs a
  stored, non-empty record list all of whose records are unchanged.
\<close>

definition record_unchanged :: "'h env \<Rightarrow> config \<Rightarrow> filesys \<Rightarrow> file_record \<Rightarrow> bool" where
  "record_unchanged e cfg fsys r =
     (case r of (f, h, m) \<Rightarrow>
        if opt_use_modtime cfg then modtime fsys f = m else hash_file e fsys f = h)"

definition fingerprints_match :: "'h env \<Rightarrow> config \<Rightarrow> filesys \<Rightarrow> file_record list \<Rightarrow> bool" where
  "fingerprints_match e cfg fsys fl = list_all (record_unchanged e cfg fsys) fl"

definition is_hit :: "'h env \<Rightarrow> config \<Rightarrow> filesys \<Rightarrow> deps \<Rightarrow> string \<Rightarrow> bool" where
  "is_hit e cfg fsys d cmd =
     (case d cmd of None \<Rightarrow> False | Some fl \<Rightarrow> fl \<noteq> [] \<and> fingerprints_match e cfg fsys fl)"

text \<open>
  The shell commands a run of the engine has executed, whether it returned or raised;
  the bytes of a regular file; a store path that \<^verbatim>\<open>open(p, 'wb')\<close> accepts.
\<close>

definition commands_run :: "(pyerr \<times> string list) + outcome \<Rightarrow> string list" where
  "commands_run r = (case r of Inl (err, cmds) \<Rightarrow> cmds | Inr res \<Rightarrow> executed res)"

definition file_bytes :: "filesys \<Rightarrow> string \<Rightarrow> string option" where
  "file_bytes fsys p = (case nodes fsys p of Some (RegFile c t r w) \<Rightarrow> Some c | _ \<Rightarrow> None)"

definition store_writable :: "filesys \<Rightarrow> string \<Rightarrow> bool" where
  "store_writable fsys p =
     (case nodes fsys p of
        None \<Rightarrow> creatable fsys p
      | Some (RegFile c t r w) \<Rightarrow> w
      | Some (OtherNode t) \<Rightarrow> False)"

text \<open>
  The trace in the words of the claims: the payloads of the exit events in line order
  and the exit code the last of them stands for; the normalised paths that the patterns
  capture, line by line and within a line in the order of the pattern list; a list with
  repetitions dropped, first occurrences kept; the paths that pass the filter and name a
  regular file; the record made for a path.
\<close>

fun exit_events :: "string list \<Rightarrow> string list" where
  "exit_events [] = []"
| "exit_events (line # rest) =
     (case re_match exit_regex line of
        None \<Rightarrow> exit_events rest
      | Some g \<Rightarrow> g # exit_events rest)"

definition last_exit_code :: "'h env \<Rightarrow> string list \<Rightarrow> int option" where
  "last_exit_code e output =
     (if exit_events output = [] then Some 0 else to_int e (last (exit_events output)))"

fun line_paths :: "string \<Rightarrow> item list list \<Rightarrow> string list" where
  "line_paths line [] = []"
| "line_paths line (regex # rest) =
     (case re_match regex line of
        None \<Rightarrow> line_paths line rest
      | Some g \<Rightarrow> normpath g # line_paths line rest)"

definition candidate_paths :: "string list \<Rightarrow> string list" where
  "candidate_paths output = concat (map (\<lambda>line. line_paths line regexes) output)"

fun first_seen :: "'a list \<Rightarrow> 'a list" where
  "first_seen [] = []"
| "first_seen (x # xs) = x # filter (\<lambda>y. y \<noteq> x) (first_seen xs)"

definition kept :: "config \<Rightarrow> filesys \<Rightarrow> string \<Rightarrow> bool" where
  "kept cfg fsys p = (fst (is_relevant cfg fsys p) \<and> isfile fsys p)"

definition record_of :: "'h env \<Rightarrow> filesys \<Rightarrow> string \<Rightarrow> file_record" where
  "record_of e fsys p = (p, hash_file e fsys p, modtime fsys p)"

text \<open>The claim's reading of the parser: the first pattern that matches a line wins.\<close>

fun spec_first_match :: "string \<Rightarrow> item list list \<Rightarrow> string option" where
  "spec_first_match line [] = None"
| "spec_first_match line (regex # rest) =
     (case re_match regex line of
        Some g \<Rightarrow> Some (normpath g)
      | None \<Rightarrow> spec_first_match line rest)"

fun spec_candidate_paths :: "string list \<Rightarrow> string list" where
  "spec_candidate_paths [] = []"
| "spec_candidate_paths (line # rest) =
     (case spec_first_match line regexes of
        None \<Rightarrow> spec_candidate_paths rest
      | Some p \<Rightarrow> p # spec_candidate_paths rest)"

text \<open>The loop over the candidates, on the names alone.\<close>

fun note_names :: "config \<Rightarrow> filesys \<Rightarrow> string list \<Rightarrow> string list \<Rightarrow> string list" where
  "note_names cfg fsys acc [] = acc"
| "note_names cfg fsys acc (p # ps) =
     note_names cfg fsys (if p \<notin> set acc \<and> kept cfg fsys p then acc @ [p] else acc) ps"

text \<open>The invariant of the parsing loop.\<close>

definition tidy :: "'h env \<Rightarrow> filesys \<Rightarrow> pstate \<Rightarrow> bool" where
  "tidy e fsys st =
     (case st of (status, files, files_dict, out) \<Rightarrow>
        files = map (record_of e fsys) (map fst files) \<and> dom files_dict = set (map fst files))"

definition names_of :: "pstate \<Rightarrow> string list" where
  "names_of st = (case st of (status, files, files_dict, out) \<Rightarrow> map fst files)"

text \<open>
  The shape of a normalised component list: no empty component, no \<^verbatim>\<open>.\<close>, no slash
  inside a component, and \<^verbatim>\<open>..\<close> nowhere in a rooted path and only in front in a
  relative one.
\<close>

fun lead :: "string list \<Rightarrow> bool" where
  "lead [] = True"
| "lead (c # cs) = (if c = ''..'' then lead cs else ''..'' \<notin> set cs)"

definition canon :: "bool \<Rightarrow> string list \<Rightarrow> bool" where
  "canon rooted xs =
     ((\<forall>c\<in>set xs. c \<noteq> [] \<and> c \<noteq> ''.'' \<and> CHR ''/'' \<notin> set c)
      \<and> (if rooted then ''..'' \<notin> set xs else lead xs))"

text \<open>
  Trace lines and file systems of the concrete runs: an exit event, a successful and a
  refused \<^verbatim>\<open>open\<close>, and a \<^verbatim>\<open>stat\<close> of a file whose name itself looks like the start
  of an \<^verbatim>\<open>open\<close> call.
\<close>

definition exit_line :: "string \<Rightarrow> string" where
  "exit_line code = ''exit_group('' @ code @ '') = ?'' @ [newline]"

definition open_line :: "string \<Rightarrow> string" where
  "open_line name = ''open('' @ [dquote] @ name @ [dquote] @ '', O_RDONLY) = 3'' @ [newline]"

definition denied_line :: string where
  "denied_line = ''open('' @ [dquote] @ ''secret'' @ [dquote]
                   @ '', O_RDONLY) = -1 EACCES (Permission denied)'' @ [newline]"

definition odd_name :: string where
  "odd_name = ''open('' @ [dquote] @ ''b''"

definition nested_line :: string where
  "nested_line = ''stat('' @ [dquote] @ odd_name @ [dquote] @ '', {st_mode=S_IFREG}) = 0''
                   @ [newline]"

definition secret_fs :: filesys where
  "secret_fs = demo_fs [''secret'' \<mapsto> RegFile ''k'' 5 False False]"

definition nested_fs :: filesys where
  "nested_fs = demo_fs [''b'' \<mapsto> RegFile ''1'' 5 True True, odd_name \<mapsto> RegFile ''2'' 6 True True]"

definition src_fs :: filesys where
  "src_fs = demo_fs [''a.c'' \<mapsto> RegFile ''int x;'' 5 True True]"

definition changed_fs :: filesys where
  "changed_fs = demo_fs [''a.c'' \<mapsto> RegFile ''int y;'' 7 True True]"

section \<open>The relevance filter\<close>

lemma dir_loop_iff:
  "dir_loop wd path1 ds = (\<exists>d\<in>set ds. prefix (abspath wd d) path1)"
  by (induction ds) (simp_all add: Let_def)

lemma abspath_demo_build: "abspath ''/w'' ''build'' = ''/w/build''"
  by code_simp

lemma abspath_demo_dot: "abspath ''/w'' ''.'' = ''/w''"
  by code_simp

lemma abspath_demo_object: "abspath ''/w'' ''build/x.o'' = ''/w/build/x.o''"
  by code_simp

text \<open>
  C4. \<^verbatim>\<open>is_relevant\<close> takes the absolute normalised form of the path and of every root;
  it accepts exactly when no exclude root is a string prefix of the path and some
  include root is. So a path under an exclude root is rejected whatever the include
  roots are, and a path under no include root is rejected.
\<close>

theorem is_relevant_decision:
  "fst (is_relevant cfg fsys fname) =
     ((\<forall>x\<in>set (exclude_roots cfg).
          \<not> prefix (abspath (cwd fsys) x) (abspath (cwd fsys) fname))
      \<and> (\<exists>i\<in>set (opt_dirs cfg). prefix (abspath (cwd fsys) i) (abspath (cwd fsys) fname)))"
  by (auto simp: is_relevant_def exclude_roots_def dir_loop_iff Let_def split: option.splits)

text \<open>
  With include root \<^verbatim>\<open>.\<close> and exclude root \<^verbatim>\<open>build\<close> in \<^verbatim>\<open>/w\<close>, the file
  \<^verbatim>\<open>build/x.o\<close> lies under both and is rejected.
\<close>

theorem is_relevant_decision_witness:
  "fst (is_relevant (demo_cfg [''.''] (Some [''build'']) False) (demo_fs Map.empty)
          ''build/x.o'') = False
   \<and> prefix (abspath ''/w'' ''.'') (abspath ''/w'' ''build/x.o'')
   \<and> prefix (abspath ''/w'' ''build'') (abspath ''/w'' ''build/x.o'')"
  using is_relevant_decision
    [of "demo_cfg [''.''] (Some [''build'']) False" "demo_fs Map.empty" "''build/x.o''"]
  by (simp add: demo_cfg_def demo_fs_def exclude_roots_def
        abspath_demo_build abspath_demo_dot abspath_demo_object)

section \<open>The command line\<close>

lemma directory_foldl:
  "directory (foldl apply_opt a opts) = directory a @ supplied_directories opts"
  by (induction opts arbitrary: a rule: supplied_directories.induct) simp_all

text \<open>
  C10. The include roots the functions see are the default \<^verbatim>\<open>.\<close> followed by every
  directory given with \<^verbatim>\<open>--directory\<close>: the option adds to the default and never
  replaces it.
\<close>

theorem directory_default_kept:
  "opt_dirs (config_of (parse_args opts words)) = ''.'' # supplied_directories opts"
  by (simp add: config_of_def parse_args_def directory_foldl default_args_def)

section \<open>The dependency store\<close>

text \<open>
  C7, as the code has it. \<^verbatim>\<open>read_deps\<close> returns the empty dictionary when the store
  file cannot be opened for reading (absent, unreadable, not a regular file) and the
  unpickled dictionary when the file holds a well-formed pickle.
\<close>

theorem read_deps_amended:
  "(unopenable fsys p \<longrightarrow> read_deps e fsys p = Inr Map.empty)
   \<and> (holds_pickle e fsys p d \<longrightarrow> read_deps e fsys p = Inr d)"
  by (auto simp: unopenable_def holds_pickle_def read_deps_def read_bytes_def
           split: option.splits node.splits)

text \<open>An absent store, an unreadable store and a well-formed store.\<close>

theorem read_deps_amended_witness:
  "unopenable (demo_fs Map.empty) ''.deps3''
   \<and> read_deps (demo_env [] demo_store) (demo_fs Map.empty) ''.deps3'' = Inr Map.empty
   \<and> unopenable (demo_fs [''.deps3'' \<mapsto> RegFile ''pickle'' 1 False True]) ''.deps3''
   \<and> read_deps (demo_env [] demo_store)
        (demo_fs [''.deps3'' \<mapsto> RegFile ''pickle'' 1 False True]) ''.deps3'' = Inr Map.empty
   \<and> holds_pickle (demo_env [] demo_store)
        (demo_fs [''.deps3'' \<mapsto> RegFile ''pickle'' 1 True True]) ''.deps3'' demo_store
   \<and> read_deps (demo_env [] demo_store)
        (demo_fs [''.deps3'' \<mapsto> RegFile ''pickle'' 1 True True]) ''.deps3'' = Inr demo_store"
  using read_deps_amended [of "demo_fs Map.empty" "''.deps3''" "demo_env [] demo_store" demo_store]
    read_deps_amended [of "demo_fs [''.deps3'' \<mapsto> RegFile ''pickle'' 1 False True]" "''.deps3''"
      "demo_env [] demo_store" demo_store]
    read_deps_amended [of "demo_fs [''.deps3'' \<mapsto> RegFile ''pickle'' 1 True True]" "''.deps3''"
      "demo_env [] demo_store" demo_store]
  by (simp add: unopenable_def holds_pickle_def demo_fs_def demo_env_def)

text \<open>
  C7 as stated fails on a corrupt store: an empty, readable \<^verbatim>\<open>.deps3\<close> opens, the
  unpickler rejects it, and the exception reaches the caller.
\<close>

theorem read_deps_corrupt_raises:
  "pickle_loads (demo_env [] demo_store) [] = None
   \<and> read_deps (demo_env [] demo_store)
        (demo_fs [''.deps3'' \<mapsto> RegFile [] 1 True True]) ''.deps3'' = Inl UnpicklingError"
  by (simp add: read_deps_def read_bytes_def demo_fs_def demo_env_def)

text \<open>
  C8. When \<^verbatim>\<open>pickle\<close> round-trips the dictionary and the store path can be written
  and read, \<^verbatim>\<open>write_deps\<close> succeeds and \<^verbatim>\<open>read_deps\<close> on the result returns the same
  dictionary.
\<close>

theorem write_then_read:
  assumes "pickle_loads e (pickle_dumps e d) = Some d"
    and "store_usable fsys p"
  shows "\<exists>fs1. write_deps e fsys p d = Inr fs1 \<and> read_deps e fs1 p = Inr d"
  using assms
  by (auto simp: store_usable_def write_deps_def write_bytes_def read_deps_def read_bytes_def
           split: option.splits node.splits)

theorem write_then_read_witness:
  "pickle_loads (demo_env [] demo_store) (pickle_dumps (demo_env [] demo_store) demo_store)
     = Some demo_store
   \<and> store_usable (demo_fs Map.empty) ''.deps3''
   \<and> (\<exists>fs1. write_deps (demo_env [] demo_store) (demo_fs Map.empty) ''.deps3'' demo_store = Inr fs1
          \<and> read_deps (demo_env [] demo_store) fs1 ''.deps3'' = Inr demo_store)"
proof -
  have h1: "pickle_loads (demo_env [] demo_store)
              (pickle_dumps (demo_env [] demo_store) demo_store) = Some demo_store"
    by (simp add: demo_env_def)
  have h2: "store_usable (demo_fs Map.empty) ''.deps3''"
    by (simp add: store_usable_def demo_fs_def)
  from write_then_read [OF h1 h2] h1 h2 show ?thesis by blast
qed

section \<open>Evaluating the stand-in world\<close>

lemma say_demo: "say (demo_cfg incl excl ts) m = []"
  by (simp add: say_def demo_cfg_def)

lemma dumps_demo: "pickle_dumps (demo_env t d) x = ''pickle''"
  by (simp add: demo_env_def)

lemma write_demo:
  "tbl p = None \<Longrightarrow>
   write_deps e (demo_fs tbl) p d
     = Inr (demo_fs (tbl(p \<mapsto> RegFile (pickle_dumps e d) 9 True True)))"
  by (simp add: write_deps_def write_bytes_def demo_fs_def)

lemma file_bytes_demo:
  "file_bytes (demo_fs tbl) p = (case tbl p of Some (RegFile c t r w) \<Rightarrow> Some c | _ \<Rightarrow> None)"
  by (simp add: file_bytes_def demo_fs_def)

lemma hash_blocks_demo: "hash_blocks (demo_env t d) h s = h @ s"
proof (induction "demo_env t d" h s rule: hash_blocks.induct)
  case (1 hasher rest)
  show ?case
  proof (cases "take blocksize rest = []")
    case True
    then have "rest = []" by (simp add: blocksize_def)
    then show ?thesis by (simp add: hash_blocks.simps)
  next
    case False
    then have "hash_blocks (demo_env t d) (hash_update (demo_env t d) hasher (take blocksize rest))
                 (drop blocksize rest)
               = hash_update (demo_env t d) hasher (take blocksize rest) @ drop blocksize rest"
      using "1" by simp
    with False show ?thesis
      by (subst hash_blocks.simps) (simp add: Let_def demo_env_def)
  qed
qed

lemma hash_file_demo:
  "hash_file (demo_env t d) (demo_fs tbl) p =
     (case tbl p of Some (RegFile c ts r w) \<Rightarrow> if r then Some c else None | _ \<Rightarrow> None)"
  by (simp add: hash_file_def read_bytes_def hash_blocks_demo demo_fs_def
           split: option.splits node.splits)
     (simp add: demo_env_def)

lemma modtime_demo:
  "modtime (demo_fs tbl) p =
     (case tbl p of Some (RegFile c ts r w) \<Rightarrow> MTime ts | Some (OtherNode ts) \<Rightarrow> MTime ts
      | None \<Rightarrow> BadModtime)"
  by (simp add: modtime_def getmtime_def demo_fs_def split: option.splits node.splits)

lemma isfile_demo:
  "isfile (demo_fs tbl) p = (case tbl p of Some (RegFile c ts r w) \<Rightarrow> True | _ \<Rightarrow> False)"
  by (simp add: isfile_def demo_fs_def)

lemma is_relevant_demo:
  "is_relevant (demo_cfg [''.''] None ts) (demo_fs tbl) p = (prefix ''/w'' (abspath ''/w'' p), [])"
  by (simp add: is_relevant_def demo_cfg_def demo_fs_def abspath_demo_dot say_def Let_def)

lemmas demo_simps = hash_file_demo modtime_demo isfile_demo is_relevant_demo

lemma to_int_demo: "to_int (demo_env t d) = py_int"
  by (simp add: demo_env_def)

lemma generate_demo:
  "generate_deps (demo_env t d) (demo_cfg incl excl ts) cmd (demo_fs tbl) =
     (case parse_trace (demo_env t d) (demo_cfg incl excl ts)
             (demo_fs (tbl(''/tmp/trace'' := None))) (readlines t) of
        Inl err \<Rightarrow> Inl (err, [strace_command ''/tmp/trace'' cmd])
      | Inr (res, out) \<Rightarrow>
          Inr (res, demo_fs (tbl(''/tmp/trace'' := None)), out, [strace_command ''/tmp/trace'' cmd]))"
proof -
  have 1: "mktemp (demo_env t d) fsys = ''/tmp/trace''" for fsys
    by (simp add: demo_env_def)
  have 2: "subprocess_call (demo_env t d) c (demo_fs tbl)
             = demo_fs (tbl(''/tmp/trace'' \<mapsto> RegFile t 9 True True))" for c
    by (simp add: demo_env_def demo_fs_def)
  have 3: "read_bytes (demo_fs (tbl(''/tmp/trace'' \<mapsto> RegFile x 9 True True))) ''/tmp/trace''
             = Some x" for x
    by (simp add: read_bytes_def demo_fs_def)
  have 4: "remove (demo_fs (tbl(''/tmp/trace'' \<mapsto> n))) ''/tmp/trace''
             = demo_fs (tbl(''/tmp/trace'' := None))" for n
    by (simp add: remove_def demo_fs_def)
  show ?thesis
    unfolding generate_deps_def Let_def 1 2 3 4
    by (simp add: say_demo split: sum.splits)
qed

lemma tbl_clean: "[''a.c'' \<mapsto> n](''/tmp/trace'' := None) = [''a.c'' \<mapsto> n]"
  by (rule ext) simp

lemma exit0_matches: "map (\<lambda>r. re_match r (exit_line ''0'')) regexes = [None, None, None, None, None]" by code_simp
lemma exit0_event: "re_match exit_regex (exit_line ''0'') = Some ''0''" by code_simp
lemma exit2_matches: "map (\<lambda>r. re_match r (exit_line ''2'')) regexes = [None, None, None, None, None]" by code_simp
lemma exit2_event: "re_match exit_regex (exit_line ''2'') = Some ''2''" by code_simp
lemma py_int_0: "py_int ''0'' = Some 0" by code_simp
lemma py_int_2: "py_int ''2'' = Some 2" by code_simp
lemma readlines_exit0: "readlines (exit_line ''0'') = [exit_line ''0'']" by code_simp
lemma readlines_exit2: "readlines (exit_line ''2'') = [exit_line ''2'']" by code_simp

lemma denied_matches:
  "map (\<lambda>r. re_match r denied_line) regexes = [Some ''secret'', None, None, None, None]"
  by code_simp
lemma denied_exit: "re_match exit_regex denied_line = None" by code_simp
lemma normpath_secret: "normpath ''secret'' = ''secret''" by code_simp
lemma abspath_secret: "abspath ''/w'' ''secret'' = ''/w/secret''" by code_simp

lemma nested_matches:
  "map (\<lambda>r. re_match r nested_line) regexes = [Some ''b'', None, None, Some odd_name, None]"
  by code_simp
lemma nested_exit: "re_match exit_regex nested_line = None" by code_simp
lemma normpath_b: "normpath ''b'' = ''b''" by code_simp
lemma normpath_odd: "normpath odd_name = odd_name" by code_simp
lemma abspath_b: "abspath ''/w'' ''b'' = ''/w/b''" by code_simp
lemma abspath_odd: "abspath ''/w'' odd_name = ''/w/'' @ odd_name" by code_simp
lemma odd_not_b: "odd_name \<noteq> ''b''" by code_simp

lemma open_a_matches:
  "map (\<lambda>r. re_match r (open_line ''a.c'')) regexes = [Some ''a.c'', None, None, None, None]"
  by code_simp
lemma open_a_exit: "re_match exit_regex (open_line ''a.c'') = None" by code_simp
lemma normpath_a: "normpath ''a.c'' = ''a.c''" by code_simp
lemma abspath_a: "abspath ''/w'' ''a.c'' = ''/w/a.c''" by code_simp
lemma exit1_matches:
  "map (\<lambda>r. re_match r (exit_line ''1'')) regexes = [None, None, None, None, None]" by code_simp
lemma exit1_event: "re_match exit_regex (exit_line ''1'') = Some ''1''" by code_simp
lemma py_int_1: "py_int ''1'' = Some 1" by code_simp

lemma readlines_open_a: "readlines (open_line ''a.c'') = [open_line ''a.c'']" by code_simp

lemma strace_true: "strace_command ''/tmp/trace'' ''true'' = ''strace -f -o /tmp/trace -e trace=file,exit_group true''"
  by (simp add: strace_command_def)

lemma strace_make:
  "strace_command ''/tmp/trace'' ''make'' = ''strace -f -o /tmp/trace -e trace=file,exit_group make''"
  by (simp add: strace_command_def)

lemma strace_cc:
  "strace_command ''/tmp/trace'' ''cc a.c''
     = ''strace -f -o /tmp/trace -e trace=file,exit_group cc a.c''"
  by (simp add: strace_command_def)

lemma parse_exit0:
  "parse_trace (demo_env t d) cfg fsys [exit_line ''0''] = Inr ((0, []), [])"
  using exit0_matches exit0_event
  by (simp add: parse_trace_def regexes_def demo_env_def py_int_0)

lemma parse_exit2:
  "parse_trace (demo_env t d) cfg fsys [exit_line ''2''] = Inr ((2, []), [])"
  using exit2_matches exit2_event
  by (simp add: parse_trace_def regexes_def demo_env_def py_int_2)

lemma parse_denied:
  "parse_trace (demo_env t d) (demo_cfg [''.''] None ts) secret_fs [denied_line]
     = Inr ((0, [(''secret'', None, MTime 5)]), [])"
  using denied_matches denied_exit
  by (simp add: parse_trace_def regexes_def match_body_def Let_def secret_fs_def demo_simps
        normpath_secret abspath_secret)

lemma parse_nested:
  "parse_trace (demo_env t d) (demo_cfg [''.''] None ts) nested_fs [nested_line]
     = Inr ((0, [(''b'', Some ''1'', MTime 5), (odd_name, Some ''2'', MTime 6)]), [])"
  using nested_matches nested_exit odd_not_b
  by (simp add: parse_trace_def regexes_def match_body_def Let_def nested_fs_def demo_simps
        normpath_b normpath_odd abspath_b abspath_odd)

lemma parse_session:
  "parse_trace (demo_env t d) (demo_cfg [''.''] None ts) src_fs
       [exit_line ''1'', open_line ''a.c'', exit_line ''0'']
     = Inr ((0, [(''a.c'', Some ''int x;'', MTime 5)]), [])"
  using exit1_matches exit1_event open_a_matches open_a_exit exit0_matches exit0_event
  by (simp add: parse_trace_def regexes_def match_body_def Let_def src_fs_def demo_simps
        normpath_a abspath_a to_int_demo py_int_0 py_int_1)

lemma parse_open_a:
  "parse_trace (demo_env t d) (demo_cfg [''.''] None ts) src_fs [open_line ''a.c'']
     = Inr ((0, [(''a.c'', Some ''int x;'', MTime 5)]), [])"
  using open_a_matches open_a_exit
  by (simp add: parse_trace_def regexes_def match_body_def Let_def src_fs_def demo_simps
        normpath_a abspath_a)

lemma generate_exit0:
  "generate_deps (demo_env (exit_line ''0'') d) (demo_cfg incl excl ts) cmd (demo_fs tbl) =
     Inr ((0, []), demo_fs (tbl(''/tmp/trace'' := None)), [], [strace_command ''/tmp/trace'' cmd])"
proof -
  have 1: "mktemp (demo_env (exit_line ''0'') d) fsys = ''/tmp/trace''" for fsys
    by (simp add: demo_env_def)
  have 2: "subprocess_call (demo_env (exit_line ''0'') d) c (demo_fs tbl)
             = demo_fs (tbl(''/tmp/trace'' \<mapsto> RegFile (exit_line ''0'') 9 True True))" for c
    by (simp add: demo_env_def demo_fs_def)
  have 3: "read_bytes (demo_fs (tbl(''/tmp/trace'' \<mapsto> RegFile x 9 True True))) ''/tmp/trace''
             = Some x" for x
    by (simp add: read_bytes_def demo_fs_def)
  have 4: "remove (demo_fs (tbl(''/tmp/trace'' \<mapsto> n))) ''/tmp/trace''
             = demo_fs (tbl(''/tmp/trace'' := None))" for n
    by (simp add: remove_def demo_fs_def)
  show ?thesis
    unfolding generate_deps_def Let_def 1 2 3 4
    by (simp add: readlines_exit0 parse_exit0 say_demo)
qed

lemma generate_failed:
  "generate_deps (demo_env (exit_line ''2'') Map.empty) (demo_cfg [''.''] None False) ''make''
     changed_fs
   = Inr ((2, []), changed_fs, [], [''strace -f -o /tmp/trace -e trace=file,exit_group make''])"
  by (simp add: changed_fs_def generate_demo readlines_exit2 parse_exit2 tbl_clean strace_make)

lemma generate_cc:
  "generate_deps (demo_env (open_line ''a.c'') Map.empty) (demo_cfg [''.''] None False)
     ''cc a.c'' src_fs
   = Inr ((0, [(''a.c'', Some ''int x;'', MTime 5)]), src_fs, [],
          [''strace -f -o /tmp/trace -e trace=file,exit_group cc a.c''])"
  by (simp add: src_fs_def generate_demo readlines_open_a strace_cc tbl_clean
        parse_open_a [unfolded src_fs_def])

section \<open>The staleness check\<close>

lemma files_loop_Cons:
  "files_loop e cfg fsys (r # rest) =
     (if record_unchanged e cfg fsys r then files_loop e cfg fsys rest
      else (False, say cfg (if opt_use_modtime cfg then FileModtimeChanged (fst r)
                            else FileHashChanged (fst r))))"
  by (cases r) (simp add: record_unchanged_def)

lemma files_loop_match:
  "fingerprints_match e cfg fsys fl \<Longrightarrow> files_loop e cfg fsys fl = (True, [])"
  unfolding fingerprints_match_def
  by (induction fl) (simp_all add: files_loop_Cons del: files_loop.simps(2))

lemma files_loop_fst: "fst (files_loop e cfg fsys fl) = fingerprints_match e cfg fsys fl"
  unfolding fingerprints_match_def
  by (induction fl) (simp_all add: files_loop_Cons del: files_loop.simps(2))

text \<open>
  C3, as the code has it. When the fingerprint of the active mode cannot be computed
  for a recorded file (hash mode: the file cannot be read; timestamp mode: the file is
  gone) and the stored fingerprint of that mode is a real one (a digest, a time), the
  check answers "not up to date"; it is a total function and raises nothing.
\<close>

theorem failed_fingerprint_is_miss:
  assumes "(f, h, m) \<in> set fl"
    and "if opt_use_modtime cfg then nodes fsys f = None \<and> m \<noteq> BadModtime
         else read_bytes fsys f = None \<and> h \<noteq> None"
  shows "fst (files_up_to_date e cfg fsys (Some fl)) = False"
proof -
  have "\<not> record_unchanged e cfg fsys (f, h, m)"
    using assms(2)
    by (auto simp: record_unchanged_def modtime_def getmtime_def hash_file_def split: if_splits)
  with assms(1) have "\<not> fingerprints_match e cfg fsys fl"
    by (auto simp: fingerprints_match_def list_all_iff)
  then show ?thesis
    by (simp add: files_up_to_date_def files_loop_fst)
qed

text \<open>
  A recorded \<^verbatim>\<open>a.c\<close> with a stored digest, checked in hash mode after the file was
  deleted.
\<close>

theorem failed_fingerprint_is_miss_witness:
  "(''a.c'', Some ''int x;'', MTime 5) \<in> set [(''a.c'', Some ''int x;'', MTime 5)]
   \<and> \<not> opt_use_modtime (demo_cfg [''.''] None False)
   \<and> read_bytes (demo_fs Map.empty) ''a.c'' = None
   \<and> fst (files_up_to_date (demo_env [] Map.empty) (demo_cfg [''.''] None False)
             (demo_fs Map.empty) (Some [(''a.c'', Some ''int x;'', MTime 5)])) = False"
  using failed_fingerprint_is_miss
    [of "''a.c''" "Some ''int x;''" "MTime 5" "[(''a.c'', Some ''int x;'', MTime 5)]"
        "demo_cfg [''.''] None False" "demo_fs Map.empty" "demo_env [] Map.empty"]
  by (simp add: demo_cfg_def read_bytes_def demo_fs_def)

text \<open>
  C3 as stated fails. A regular file that this process may not read is recorded, when a
  command tries to open it, with the digest \<^verbatim>\<open>None\<close>; at the next check it is still
  unreadable, the digest is \<^verbatim>\<open>None\<close> again, the two are equal and the check answers
  "up to date". In timestamp mode the check answers the same, the file's time being
  unchanged.
\<close>

theorem unreadable_file_is_hit:
  "parse_trace (demo_env [] Map.empty) (demo_cfg [''.''] None False) secret_fs [denied_line]
     = Inr ((0, [(''secret'', None, MTime 5)]), [])
   \<and> read_bytes secret_fs ''secret'' = None
   \<and> files_up_to_date (demo_env [] Map.empty) (demo_cfg [''.''] None False) secret_fs
        (Some [(''secret'', None, MTime 5)]) = (True, [])
   \<and> files_up_to_date (demo_env [] Map.empty) (demo_cfg [''.''] None True) secret_fs
        (Some [(''secret'', None, MTime 5)]) = (True, [])"
proof -
  have "read_bytes secret_fs ''secret'' = None"
    by (simp add: secret_fs_def read_bytes_def demo_fs_def)
  moreover have "files_up_to_date (demo_env [] Map.empty) (demo_cfg [''.''] None ts) secret_fs
        (Some [(''secret'', None, MTime 5)]) = (True, [])" for ts
    by (simp add: files_up_to_date_def secret_fs_def demo_simps)
  ultimately show ?thesis by (simp add: parse_denied)
qed

section \<open>The engine\<close>

lemma hit_demo:
  "is_hit (demo_env t d) (demo_cfg [''.''] None False) src_fs demo_store ''make''"
  by (simp add: is_hit_def demo_store_def fingerprints_match_def record_unchanged_def
        src_fs_def demo_simps demo_cfg_def)

lemma miss_demo:
  "\<not> is_hit (demo_env t d) (demo_cfg [''.''] None False) changed_fs demo_store ''make''"
  by (simp add: is_hit_def demo_store_def fingerprints_match_def record_unchanged_def
        changed_fs_def demo_simps demo_cfg_def)

text \<open>
  C1, as the code has it. When the command has a stored, non-empty record list and every
  record is unchanged, the engine prints "up to date", returns 0, runs nothing and
  leaves the file system and the store as they were. In every other case (a changed
  record, no entry, an empty record list) it runs the command under the tracer.
\<close>

theorem memoize_hit_or_miss:
  "(is_hit e cfg fsys d cmd \<longrightarrow>
      memoize_with_deps e cfg depsname d cmd fsys =
        Inr \<lparr>exit_status = 0, store = d, disk = fsys,
             printed = say cfg (FilesUsed (d cmd)) @ [UpToDate cmd], executed = []\<rparr>)
   \<and> (\<not> is_hit e cfg fsys d cmd \<longrightarrow>
      commands_run (memoize_with_deps e cfg depsname d cmd fsys)
        = [strace_command (mktemp e fsys) cmd])"
proof (intro conjI impI)
  assume hit: "is_hit e cfg fsys d cmd"
  then obtain fl where fl: "d cmd = Some fl" "fl \<noteq> []" "fingerprints_match e cfg fsys fl"
    by (auto simp: is_hit_def split: option.splits)
  have "files_loop e cfg fsys fl = (True, [])"
    using fl(3) by (rule files_loop_match)
  with fl show "memoize_with_deps e cfg depsname d cmd fsys =
        Inr \<lparr>exit_status = 0, store = d, disk = fsys,
             printed = say cfg (FilesUsed (d cmd)) @ [UpToDate cmd], executed = []\<rparr>"
    by (simp add: memoize_with_deps_def files_up_to_date_def)
next
  assume miss: "\<not> is_hit e cfg fsys d cmd"
  have chk: "fst (if d cmd \<noteq> None \<and> d cmd \<noteq> Some []
               then files_up_to_date e cfg fsys (d cmd) else (False, [])) = False"
    using miss
    by (auto simp: is_hit_def files_up_to_date_def files_loop_fst split: option.splits)
  obtain b out1 where bo: "(if d cmd \<noteq> None \<and> d cmd \<noteq> Some []
               then files_up_to_date e cfg fsys (d cmd) else (False, [])) = (b, out1)"
    by (cases "(if d cmd \<noteq> None \<and> d cmd \<noteq> Some []
               then files_up_to_date e cfg fsys (d cmd) else (False, []))") 
  with chk have b: "b = False" by simp
  show "commands_run (memoize_with_deps e cfg depsname d cmd fsys)
        = [strace_command (mktemp e fsys) cmd]"
    unfolding memoize_with_deps_def Let_def bo b
    by (auto simp: generate_deps_def commands_run_def Let_def split: option.splits sum.splits prod.splits)
qed

text \<open>
  The store holds \<^verbatim>\<open>make\<close> with \<^verbatim>\<open>a.c\<close>: unchanged, the run is a HIT; with other
  bytes in \<^verbatim>\<open>a.c\<close>, the command is run.
\<close>

theorem memoize_hit_or_miss_witness:
  "is_hit (demo_env (exit_line ''2'') Map.empty) (demo_cfg [''.''] None False) src_fs
      demo_store ''make''
   \<and> memoize_with_deps (demo_env (exit_line ''2'') Map.empty) (demo_cfg [''.''] None False)
        ''.deps3'' demo_store ''make'' src_fs
       = Inr \<lparr>exit_status = 0, store = demo_store, disk = src_fs,
              printed = [UpToDate ''make''], executed = []\<rparr>
   \<and> \<not> is_hit (demo_env (exit_line ''2'') Map.empty) (demo_cfg [''.''] None False) changed_fs
        demo_store ''make''
   \<and> commands_run (memoize_with_deps (demo_env (exit_line ''2'') Map.empty)
        (demo_cfg [''.''] None False) ''.deps3'' demo_store ''make'' changed_fs)
       = [''strace -f -o /tmp/trace -e trace=file,exit_group make'']"
  using memoize_hit_or_miss [of "demo_env (exit_line ''2'') Map.empty"
      "demo_cfg [''.''] None False" src_fs demo_store "''make''" "''.deps3''"]
    memoize_hit_or_miss [of "demo_env (exit_line ''2'') Map.empty"
      "demo_cfg [''.''] None False" changed_fs demo_store "''make''" "''.deps3''"]
    hit_demo [of "exit_line ''2''" Map.empty] miss_demo [of "exit_line ''2''" Map.empty]
  by (simp add: say_demo strace_make [symmetric]) (simp add: demo_env_def)

text \<open>
  C1 as stated fails. The store holds \<^verbatim>\<open>true\<close> with an empty record list, so every
  record of it is unchanged; the engine nevertheless runs the command and rewrites the
  store.
\<close>

theorem empty_set_is_miss:
  "[''true'' \<mapsto> []] ''true'' = Some ([] :: file_record list)
   \<and> fingerprints_match (demo_env (exit_line ''0'') Map.empty) (demo_cfg [''.''] None False)
        (demo_fs Map.empty) []
   \<and> (case memoize_with_deps (demo_env (exit_line ''0'') Map.empty) (demo_cfg [''.''] None False)
              ''.deps3'' [''true'' \<mapsto> []] ''true'' (demo_fs Map.empty) of
         Inl err \<Rightarrow> False
       | Inr r \<Rightarrow> exit_status r = 0
                 \<and> executed r = [''strace -f -o /tmp/trace -e trace=file,exit_group true'']
                 \<and> file_bytes (disk r) ''.deps3'' = Some ''pickle'')"
  by (simp add: fingerprints_match_def memoize_with_deps_def generate_exit0 strace_true
        write_demo file_bytes_demo say_demo dumps_demo)

text \<open>
  C2. On a MISS whose traced run returned \<^verbatim>\<open>(status, files1)\<close>, with a store path that
  can be written: the engine returns \<^verbatim>\<open>status\<close>; the dictionary has \<^verbatim>\<open>files1\<close> for the
  command when \<^verbatim>\<open>status\<close> is 0 and no entry for it otherwise; and the store file holds
  the pickle of that dictionary.
\<close>

theorem miss_records_or_discards:
  assumes miss: "\<not> is_hit e cfg fsys d cmd"
    and gen: "generate_deps e cfg cmd fsys = Inr ((status, files1), fs1, out, cmds)"
    and wr: "store_writable fs1 depsname"
  shows "\<exists>r. memoize_with_deps e cfg depsname d cmd fsys = Inr r
             \<and> exit_status r = status
             \<and> store r = (if status = 0 then d(cmd \<mapsto> files1) else d(cmd := None))
             \<and> file_bytes (disk r) depsname = Some (pickle_dumps e (store r))
             \<and> executed r = cmds"
proof -
  have chk: "fst (if d cmd \<noteq> None \<and> d cmd \<noteq> Some []
               then files_up_to_date e cfg fsys (d cmd) else (False, [])) = False"
    using miss
    by (auto simp: is_hit_def files_up_to_date_def files_loop_fst split: option.splits)
  obtain b out1 where bo: "(if d cmd \<noteq> None \<and> d cmd \<noteq> Some []
               then files_up_to_date e cfg fsys (d cmd) else (False, [])) = (b, out1)"
    by (cases "(if d cmd \<noteq> None \<and> d cmd \<noteq> Some []
               then files_up_to_date e cfg fsys (d cmd) else (False, []))") 
  with chk have b: "b = False" by simp
  define d1 where "d1 = (if status = 0 then d(cmd \<mapsto> files1) else d(cmd := None))"
  have d1': "(if status = 0 then d(cmd \<mapsto> files1)
              else if d cmd \<noteq> None then d(cmd := None) else d) = d1"
    by (auto simp: d1_def)
  obtain fs2 where w: "write_deps e fs1 depsname d1 = Inr fs2"
     and fb: "file_bytes fs2 depsname = Some (pickle_dumps e d1)"
    using wr
    by (auto simp: store_writable_def write_deps_def write_bytes_def file_bytes_def
             split: option.splits node.splits)
  have "memoize_with_deps e cfg depsname d cmd fsys =
          Inr \<lparr>exit_status = status, store = d1, disk = fs2,
               printed = say cfg (FilesUsed (d cmd)) @ out1 @ out, executed = cmds\<rparr>"
    unfolding memoize_with_deps_def Let_def bo b using gen w by (simp add: d1')
  then show ?thesis using fb by (simp add: d1_def)
qed

text \<open>
  \<^verbatim>\<open>make\<close> is stored with \<^verbatim>\<open>a.c\<close>, the file has changed, and the run exits with status
  2: the entry is gone and 2 is returned.
\<close>

theorem miss_records_or_discards_witness:
  "\<not> is_hit (demo_env (exit_line ''2'') Map.empty) (demo_cfg [''.''] None False) changed_fs
        demo_store ''make''
   \<and> generate_deps (demo_env (exit_line ''2'') Map.empty) (demo_cfg [''.''] None False) ''make''
        changed_fs
       = Inr ((2, []), changed_fs, [], [''strace -f -o /tmp/trace -e trace=file,exit_group make''])
   \<and> store_writable changed_fs ''.deps3''
   \<and> (\<exists>r. memoize_with_deps (demo_env (exit_line ''2'') Map.empty) (demo_cfg [''.''] None False)
              ''.deps3'' demo_store ''make'' changed_fs = Inr r
          \<and> exit_status r = 2
          \<and> store r = demo_store(''make'' := None)
          \<and> file_bytes (disk r) ''.deps3''
              = Some (pickle_dumps (demo_env (exit_line ''2'') Map.empty) (store r))
          \<and> executed r = [''strace -f -o /tmp/trace -e trace=file,exit_group make''])"
proof -
  have w: "store_writable changed_fs ''.deps3''"
    by (simp add: store_writable_def changed_fs_def demo_fs_def)
  from miss_records_or_discards [OF miss_demo generate_failed w]
    miss_demo generate_failed w
  show ?thesis by simp
qed

section \<open>The trace parser\<close>

lemma regexes_nonempty: "regexes \<noteq> []"
  by (simp add: regexes_def)

lemma match_body_status: "fst (match_body e cfg fsys g st) = fst st"
  by (cases st) (auto simp: match_body_def Let_def split: prod.splits)

lemma regex_loop_no_exit:
  "re_match exit_regex line = None \<Longrightarrow>
   \<exists>st1. regex_loop e cfg fsys line rxs st = Inr st1 \<and> fst st1 = fst st"
proof (induction rxs arbitrary: st)
  case Nil
  then show ?case by simp
next
  case (Cons rx rxs)
  let ?st0 = "case re_match rx line of Some group1 \<Rightarrow> match_body e cfg fsys group1 st | None \<Rightarrow> st"
  have "fst ?st0 = fst st" by (simp add: match_body_status split: option.splits)
  moreover from Cons.IH [OF Cons.prems, of ?st0]
  obtain st1 where "regex_loop e cfg fsys line rxs ?st0 = Inr st1" "fst st1 = fst ?st0" by blast
  ultimately show ?case using Cons.prems by (simp add: Let_def)
qed

lemma regex_loop_exit:
  "re_match exit_regex line = Some g \<Longrightarrow> to_int e g = Some n \<Longrightarrow>
   \<exists>st1. regex_loop e cfg fsys line rxs st = Inr st1
         \<and> fst st1 = (if rxs = [] then fst st else n)"
proof (induction rxs arbitrary: st)
  case Nil
  then show ?case by simp
next
  case (Cons rx rxs)
  let ?st0 = "case re_match rx line of Some group1 \<Rightarrow> match_body e cfg fsys group1 st | None \<Rightarrow> st"
  obtain s0 f0 d0 o0 where st0: "?st0 = (s0, f0, d0, o0)" by (cases ?st0)
  from Cons.IH [OF Cons.prems, of "(n, f0, d0, o0)"]
  obtain st1 where "regex_loop e cfg fsys line rxs (n, f0, d0, o0) = Inr st1"
    and "fst st1 = (if rxs = [] then n else n)" by auto
  then show ?case using Cons.prems st0 by (simp add: Let_def)
qed

lemma regex_loop_bad_exit:
  "re_match exit_regex line = Some g \<Longrightarrow> to_int e g = None \<Longrightarrow> rxs \<noteq> [] \<Longrightarrow>
   regex_loop e cfg fsys line rxs st = Inl ValueError"
  by (cases rxs) (simp_all add: Let_def)

lemma line_loop_status:
  "\<forall>g\<in>set (exit_events lns). to_int e g \<noteq> None \<Longrightarrow>
   \<exists>st1. line_loop e cfg fsys lns st = Inr st1
         \<and> Some (fst st1) = (if exit_events lns = [] then Some (fst st)
                              else to_int e (last (exit_events lns)))"
proof (induction lns arbitrary: st)
  case Nil
  then show ?case by simp
next
  case (Cons line rest)
  show ?case
  proof (cases "re_match exit_regex line")
    case None
    from regex_loop_no_exit [OF None, of e cfg fsys regexes st]
    obtain st0 where r: "regex_loop e cfg fsys line regexes st = Inr st0" "fst st0 = fst st"
      by blast
    from Cons.prems None have "\<forall>g\<in>set (exit_events rest). to_int e g \<noteq> None" by simp
    from Cons.IH [OF this, of st0]
    obtain st1 where l: "line_loop e cfg fsys rest st0 = Inr st1"
      and s: "Some (fst st1) = (if exit_events rest = [] then Some (fst st0)
                                else to_int e (last (exit_events rest)))"
      by blast
    have "line_loop e cfg fsys (line # rest) st = Inr st1" using r l by simp
    moreover have "Some (fst st1) = (if exit_events (line # rest) = [] then Some (fst st)
                              else to_int e (last (exit_events (line # rest))))"
      using s r(2) None by simp
    ultimately show ?thesis by blast
  next
    case (Some g)
    with Cons.prems obtain n where n: "to_int e g = Some n" by auto
    from regex_loop_exit [OF Some n, of cfg fsys regexes st] regexes_nonempty
    obtain st0 where r: "regex_loop e cfg fsys line regexes st = Inr st0" "fst st0 = n"
      by auto
    from Cons.prems Some have "\<forall>g\<in>set (exit_events rest). to_int e g \<noteq> None" by simp
    from Cons.IH [OF this, of st0]
    obtain st1 where l: "line_loop e cfg fsys rest st0 = Inr st1"
      and s: "Some (fst st1) = (if exit_events rest = [] then Some (fst st0)
                                else to_int e (last (exit_events rest)))"
      by blast
    have "line_loop e cfg fsys (line # rest) st = Inr st1" using r l by simp
    moreover have "Some (fst st1) = (if exit_events (line # rest) = [] then Some (fst st)
                              else to_int e (last (exit_events (line # rest))))"
      using s r(2) Some n by simp
    ultimately show ?thesis by blast
  qed
qed

lemma line_loop_raises:
  "\<exists>g\<in>set (exit_events lns). to_int e g = None \<Longrightarrow>
   line_loop e cfg fsys lns st = Inl ValueError"
proof (induction lns arbitrary: st)
  case Nil
  then show ?case by simp
next
  case (Cons line rest)
  show ?case
  proof (cases "re_match exit_regex line")
    case None
    from regex_loop_no_exit [OF None, of e cfg fsys regexes st]
    obtain st0 where r: "regex_loop e cfg fsys line regexes st = Inr st0" by blast
    from Cons.prems None have "\<exists>g\<in>set (exit_events rest). to_int e g = None" by simp
    from Cons.IH [OF this, of st0] r show ?thesis by simp
  next
    case (Some g)
    show ?thesis
    proof (cases "to_int e g")
      case None
      from regex_loop_bad_exit [OF Some None regexes_nonempty] show ?thesis by simp
    next
      case (Some n)
      from regex_loop_exit [OF \<open>re_match exit_regex line = Some g\<close> Some, of cfg fsys regexes st]
      obtain st0 where r: "regex_loop e cfg fsys line regexes st = Inr st0" by blast
      from Cons.prems \<open>re_match exit_regex line = Some g\<close> Some
      have "\<exists>g\<in>set (exit_events rest). to_int e g = None" by simp
      from Cons.IH [OF this, of st0] r show ?thesis by simp
    qed
  qed
qed

text \<open>
  C5. Whenever the parser returns, its exit code is the integer of the last exit event
  of the trace, or 0 when the trace has none; the path patterns play no part in it. The
  parser returns exactly when \<^verbatim>\<open>int\<close> accepts the payload of every exit event.
\<close>

theorem parse_trace_status:
  "(parse_trace e cfg fsys lns = Inr ((status, files), out)
      \<longrightarrow> last_exit_code e lns = Some status)
   \<and> ((\<exists>r. parse_trace e cfg fsys lns = Inr r)
        = (\<forall>g\<in>set (exit_events lns). to_int e g \<noteq> None))"
proof (cases "\<forall>g\<in>set (exit_events lns). to_int e g \<noteq> None")
  case True
  from line_loop_status [OF True, of cfg fsys "(0, [], Map.empty, [])"]
  obtain st1 where l: "line_loop e cfg fsys lns (0, [], Map.empty, []) = Inr st1"
    and s: "Some (fst st1) = last_exit_code e lns"
    unfolding last_exit_code_def by auto
  obtain s1 f1 d1 o1 where st1: "st1 = (s1, f1, d1, o1)" by (cases st1)
  have p: "parse_trace e cfg fsys lns = Inr ((s1, f1), o1)"
    using l by (simp add: parse_trace_def st1)
  have "last_exit_code e lns = Some s1" using s by (simp add: st1)
  with p True show ?thesis by auto
next
  case False
  then have "\<exists>g\<in>set (exit_events lns). to_int e g = None" by simp
  from line_loop_raises [OF this, of cfg fsys "(0, [], Map.empty, [])"] False
  show ?thesis by (simp add: parse_trace_def)
qed

text \<open>
  A trace with the exit events 1 and 0 around an \<^verbatim>\<open>open\<close>: the parser returns 0.
\<close>

theorem parse_trace_status_witness:
  "parse_trace (demo_env [] Map.empty) (demo_cfg [''.''] None False) src_fs
       [exit_line ''1'', open_line ''a.c'', exit_line ''0'']
     = Inr ((0, [(''a.c'', Some ''int x;'', MTime 5)]), [])
   \<and> exit_events [exit_line ''1'', open_line ''a.c'', exit_line ''0''] = [''1'', ''0'']
   \<and> last_exit_code (demo_env [] Map.empty) [exit_line ''1'', open_line ''a.c'', exit_line ''0'']
       = Some 0
   \<and> to_int (demo_env [] Map.empty) ''1'' = Some 1
   \<and> to_int (demo_env [] Map.empty) ''0'' = Some 0"
  using parse_trace_status [of "demo_env [] Map.empty" "demo_cfg [''.''] None False" src_fs
      "[exit_line ''1'', open_line ''a.c'', exit_line ''0'']" 0
      "[(''a.c'', Some ''int x;'', MTime 5)]" "[]"]
    parse_session [of "[]" Map.empty False]
  by (simp add: exit1_event open_a_exit exit0_event to_int_demo py_int_0 py_int_1)

lemma note_names_append:
  "note_names cfg fsys acc (ps @ qs) = note_names cfg fsys (note_names cfg fsys acc ps) qs"
  by (induction ps arbitrary: acc) simp_all

lemma first_seen_step_old:
  "p \<in> set acc \<Longrightarrow>
   filter (\<lambda>y. y \<notin> set acc) (filter (\<lambda>y. y \<noteq> p) xs) = filter (\<lambda>y. y \<notin> set acc) xs"
  by (induction xs) auto

lemma first_seen_step_new:
  "filter (\<lambda>y. y \<notin> set (acc @ [p])) xs
     = filter (\<lambda>y. y \<notin> set acc) (filter (\<lambda>y. y \<noteq> p) xs)"
  by (induction xs) auto

lemma note_names_first_seen:
  "note_names cfg fsys acc ps =
     acc @ filter (\<lambda>y. y \<notin> set acc) (first_seen (filter (kept cfg fsys) ps))"
proof (induction ps arbitrary: acc)
  case Nil
  show ?case by simp
next
  case (Cons p ps)
  let ?rest = "first_seen (filter (kept cfg fsys) ps)"
  show ?case
  proof (cases "kept cfg fsys p")
    case False
    then show ?thesis using Cons [of acc] by simp
  next
    case True
    note k = True
    show ?thesis
    proof (cases "p \<in> set acc")
      case True
      have "note_names cfg fsys acc (p # ps) = acc @ filter (\<lambda>y. y \<notin> set acc) ?rest"
        using True Cons [of acc] by simp
      also have "filter (\<lambda>y. y \<notin> set acc) ?rest
                   = filter (\<lambda>y. y \<notin> set acc) (p # filter (\<lambda>y. y \<noteq> p) ?rest)"
        using True first_seen_step_old [OF True, of ?rest] by simp
      finally show ?thesis using k by simp
    next
      case False
      have "note_names cfg fsys acc (p # ps)
              = (acc @ [p]) @ filter (\<lambda>y. y \<notin> set (acc @ [p])) ?rest"
        using False k Cons [of "acc @ [p]"] by simp
      also have "\<dots> = acc @ filter (\<lambda>y. y \<notin> set acc) (p # filter (\<lambda>y. y \<noteq> p) ?rest)"
        using False by (simp only: first_seen_step_new) simp
      finally show ?thesis using k by simp
    qed
  qed
qed

lemma match_body_tidy:
  assumes "tidy e fsys st"
  shows "tidy e fsys (match_body e cfg fsys g st)
         \<and> names_of (match_body e cfg fsys g st) = note_names cfg fsys (names_of st) [normpath g]"
proof -
  obtain status files files_dict out where st: "st = (status, files, files_dict, out)"
    by (cases st)
  have in_dict: "(files_dict (normpath g) = None) = (normpath g \<notin> set (map fst files))"
  proof -
    have "dom files_dict = set (map fst files)"
      using assms by (simp add: st tidy_def)
    then have "(normpath g \<in> dom files_dict) = (normpath g \<in> set (map fst files))"
      by simp
    moreover have "(files_dict (normpath g) = None) = (normpath g \<notin> dom files_dict)"
      by (simp add: domIff)
    ultimately show ?thesis by blast
  qed
  show ?thesis
    using assms unfolding st
    by (auto simp: match_body_def Let_def tidy_def names_of_def kept_def record_of_def in_dict
             split: prod.splits)
qed

lemma regex_loop_tidy:
  "tidy e fsys st \<Longrightarrow> regex_loop e cfg fsys line rxs st = Inr st1 \<Longrightarrow>
     tidy e fsys st1 \<and> names_of st1 = note_names cfg fsys (names_of st) (line_paths line rxs)"
proof (induction rxs arbitrary: st)
  case Nil
  then show ?case by simp
next
  case (Cons rx rxs)
  define st0 where "st0 = (case re_match rx line of
                   Some group1 \<Rightarrow> match_body e cfg fsys group1 st
                 | None \<Rightarrow> st)"
  have t0: "tidy e fsys st0"
    and n0: "names_of st0 = note_names cfg fsys (names_of st) (line_paths line [rx])"
    using Cons.prems(1) match_body_tidy [of e fsys st cfg]
    by (auto simp: st0_def split: option.splits)
  obtain s0 f0 d0 o0 where st0: "st0 = (s0, f0, d0, o0)" by (cases st0)
  have t0': "tidy e fsys (n, f0, d0, o0)" for n
    using t0 by (simp add: st0 tidy_def)
  have n0': "names_of (n, f0, d0, o0) = names_of st0" for n
    by (simp add: st0 names_of_def)
  have lp: "line_paths line (rx # rxs) = line_paths line [rx] @ line_paths line rxs"
    by (simp split: option.splits)
  show ?case
  proof (cases "re_match exit_regex line")
    case None
    with Cons.prems(2) have "regex_loop e cfg fsys line rxs st0 = Inr st1"
      by (simp add: st0_def Let_def)
    from Cons.IH [OF t0 this] show ?thesis
      by (simp only: lp note_names_append n0)
  next
    case (Some g)
    with Cons.prems(2) obtain n where "to_int e g = Some n"
      and "regex_loop e cfg fsys line rxs (n, f0, d0, o0) = Inr st1"
      unfolding regex_loop.simps Let_def st0_def [symmetric]
      by (auto simp: st0 split: option.splits)
    from Cons.IH [OF t0' this(2)] show ?thesis
      by (simp only: lp note_names_append n0 n0')
  qed
qed

lemma line_loop_tidy:
  "tidy e fsys st \<Longrightarrow> line_loop e cfg fsys output st = Inr st1 \<Longrightarrow>
     tidy e fsys st1
     \<and> names_of st1 = note_names cfg fsys (names_of st) (candidate_paths output)"
proof (induction "output" arbitrary: st)
  case Nil
  then show ?case by (simp add: candidate_paths_def)
next
  case (Cons line rest)
  from Cons.prems(2) obtain st0 where r: "regex_loop e cfg fsys line regexes st = Inr st0"
    and l: "line_loop e cfg fsys rest st0 = Inr st1"
    by (auto split: sum.splits)
  from regex_loop_tidy [OF Cons.prems(1) r] Cons.IH [OF _ l]
  show ?case by (simp add: candidate_paths_def note_names_append)
qed

lemma parse_trace_names:
  assumes "parse_trace e cfg fsys output = Inr ((status, files), out)"
  shows "files = map (record_of e fsys)
                   (first_seen (filter (kept cfg fsys) (candidate_paths output)))"
proof -
  from assms obtain files_dict where
    l: "line_loop e cfg fsys output (0, [], Map.empty, []) = Inr (status, files, files_dict, out)"
    by (auto simp: parse_trace_def split: sum.splits)
  have "tidy e fsys (0, [], Map.empty, [])" by (simp add: tidy_def)
  from line_loop_tidy [OF this l]
  have t: "tidy e fsys (status, files, files_dict, out)"
    and n: "names_of (status, files, files_dict, out)
              = note_names cfg fsys (names_of (0, [], Map.empty, [])) (candidate_paths output)"
    by blast+
  from t have t1: "files = map (record_of e fsys) (map fst files)"
    unfolding tidy_def by (simp del: map_map)
  from n have n1: "map fst files = first_seen (filter (kept cfg fsys) (candidate_paths output))"
    by (simp add: names_of_def note_names_first_seen)
  show ?thesis by (subst t1) (simp only: n1)
qed

text \<open>
  C6, as the code has it. Every pattern of the list is applied to every line, and each
  one that matches contributes its normalised path; the records are those of the
  relevant regular files among these paths, in first-seen order (line order, then
  pattern order), each path once.
\<close>

theorem parse_trace_files:
  assumes "parse_trace e cfg fsys output = Inr ((status, files), out)"
  shows "files = map (record_of e fsys)
                   (first_seen (filter (kept cfg fsys) (candidate_paths output)))"
  using assms by (rule parse_trace_names)

text \<open>
  One line that two patterns match with different paths, both naming files.
\<close>

theorem parse_trace_files_witness:
  "parse_trace (demo_env [] Map.empty) (demo_cfg [''.''] None False) nested_fs [nested_line]
     = Inr ((0, [(''b'', Some ''1'', MTime 5), (odd_name, Some ''2'', MTime 6)]), [])
   \<and> [(''b'', Some ''1'', MTime 5), (odd_name, Some ''2'', MTime 6)]
       = map (record_of (demo_env [] Map.empty) nested_fs)
           (first_seen (filter (kept (demo_cfg [''.''] None False) nested_fs)
                          (candidate_paths [nested_line])))"
  using parse_trace_files [OF parse_nested [of "[]" Map.empty False]] parse_nested
  by simp

text \<open>
  C6 as stated fails. On that line the \<^verbatim>\<open>open\<close> pattern matches first and captures
  \<^verbatim>\<open>b\<close>; were the first match to win, \<^verbatim>\<open>b\<close> would be the only record. The code goes
  on through the list, and the \<^verbatim>\<open>stat\<close> pattern adds a second record.
\<close>

theorem every_pattern_contributes:
  "parse_trace (demo_env [] Map.empty) (demo_cfg [''.''] None False) nested_fs [nested_line]
     = Inr ((0, [(''b'', Some ''1'', MTime 5), (odd_name, Some ''2'', MTime 6)]), [])
   \<and> first_seen (filter (kept (demo_cfg [''.''] None False) nested_fs)
                   (spec_candidate_paths [nested_line])) = [''b'']"
proof -
  have "spec_first_match nested_line regexes = Some ''b''"
    using nested_matches by (simp add: regexes_def normpath_b)
  then have "spec_candidate_paths [nested_line] = [''b'']" by simp
  moreover have "kept (demo_cfg [''.''] None False) nested_fs ''b''"
    by (simp add: kept_def nested_fs_def demo_simps abspath_b)
  ultimately show ?thesis by (simp add: parse_nested)
qed

section \<open>Normalised paths\<close>

lemma split_sep_slash_free: "c \<in> set (split_sep s) \<Longrightarrow> CHR ''/'' \<notin> set c"
  by (induction s arbitrary: c) (auto split: if_splits list.splits)

lemma split_sep_plain: "CHR ''/'' \<notin> set w \<Longrightarrow> split_sep w = [w]"
  by (induction w) auto

lemma split_sep_append:
  "CHR ''/'' \<notin> set w \<Longrightarrow> split_sep (w @ CHR ''/'' # rest) = w # split_sep rest"
  by (induction w) auto

lemma split_join:
  "xs \<noteq> [] \<Longrightarrow> \<forall>c\<in>set xs. CHR ''/'' \<notin> set c \<Longrightarrow> split_sep (join_sep xs) = xs"
  by (induction xs rule: join_sep.induct) (auto simp: split_sep_plain split_sep_append)

lemma lead_snoc_other: "lead acc \<Longrightarrow> c \<noteq> ''..'' \<Longrightarrow> lead (acc @ [c])"
  by (induction acc) (auto split: if_splits)

lemma last_is_member: "xs \<noteq> [] \<Longrightarrow> last xs = c \<Longrightarrow> c \<in> set xs"
  using last_in_set by blast

lemma lead_all_dotdot: "lead acc \<Longrightarrow> acc \<noteq> [] \<Longrightarrow> last acc = ''..'' \<Longrightarrow> set acc = {''..''}"
  by (induction acc) (auto split: if_splits dest: last_is_member)

lemma lead_replicate: "set acc \<subseteq> {''..''} \<Longrightarrow> lead (acc @ xs) = lead xs"
  by (induction acc) auto

lemma lead_snoc_dotdot:
  "lead acc \<Longrightarrow> acc = [] \<or> last acc = ''..'' \<Longrightarrow> lead (acc @ [''..''])"
  using lead_all_dotdot [of acc] lead_replicate [of acc "[''..'']"]
  by (cases "acc = []") auto

lemma lead_butlast: "lead acc \<Longrightarrow> lead (butlast acc)"
  by (induction acc) (auto split: if_splits dest: in_set_butlastD)

lemma lead_before_dotdot: "lead (acc @ ''..'' # xs) \<Longrightarrow> acc = [] \<or> last acc = ''..''"
  by (induction acc) (auto split: if_splits)

lemma lead_prefix: "lead (acc @ xs) \<Longrightarrow> lead acc"
  by (induction acc) (auto split: if_splits)

lemma norm_comps_canon:
  "canon rooted acc \<Longrightarrow> \<forall>c\<in>set xs. CHR ''/'' \<notin> set c \<Longrightarrow> canon rooted (norm_comps rooted xs acc)"
proof (induction xs arbitrary: acc)
  case Nil
  then show ?case by simp
next
  case (Cons c xs)
  have sf: "\<forall>c\<in>set xs. CHR ''/'' \<notin> set c" and csf: "CHR ''/'' \<notin> set c"
    using Cons.prems(2) by simp_all
  show ?case
  proof (cases "c = [] \<or> c = ''.''")
    case True
    then show ?thesis using Cons.IH [OF Cons.prems(1) sf] by auto
  next
    case False
    note nontrivial = False
    show ?thesis
    proof (cases "c \<noteq> ''..'' \<or> (\<not> rooted \<and> acc = []) \<or> (acc \<noteq> [] \<and> last acc = ''..'')")
      case True
      have "canon rooted (acc @ [c])"
      proof (cases rooted)
        case True
        with \<open>c \<noteq> ''..'' \<or> (\<not> rooted \<and> acc = []) \<or> (acc \<noteq> [] \<and> last acc = ''..'')\<close>
          Cons.prems(1)
        have "c \<noteq> ''..''"
          by (auto simp: canon_def dest: last_in_set)
        with True Cons.prems(1) nontrivial csf show ?thesis
          by (auto simp: canon_def)
      next
        case False
        have "lead (acc @ [c])"
        proof (cases "c = ''..''")
          case True
          with \<open>c \<noteq> ''..'' \<or> (\<not> rooted \<and> acc = []) \<or> (acc \<noteq> [] \<and> last acc = ''..'')\<close>
          have "acc = [] \<or> last acc = ''..''" by auto
          with Cons.prems(1) False True show ?thesis
            by (auto simp: canon_def intro: lead_snoc_dotdot)
        next
          case False
          with Cons.prems(1) \<open>\<not> rooted\<close> show ?thesis
            by (auto simp: canon_def intro: lead_snoc_other)
        qed
        with False Cons.prems(1) nontrivial csf show ?thesis
          by (auto simp: canon_def)
      qed
      from Cons.IH [OF this sf] True nontrivial show ?thesis by simp
    next
      case False
      have "canon rooted (butlast acc)"
        using Cons.prems(1)
        by (auto simp: canon_def lead_butlast dest: in_set_butlastD)
      from Cons.IH [OF this sf] Cons.IH [OF Cons.prems(1) sf] False nontrivial
      show ?thesis by auto
    qed
  qed
qed

lemma norm_comps_fixed: "canon rooted (acc @ xs) \<Longrightarrow> norm_comps rooted xs acc = acc @ xs"
proof (induction xs arbitrary: acc)
  case Nil
  then show ?case by simp
next
  case (Cons c xs)
  have c: "c \<noteq> []" "c \<noteq> ''.''"
    using Cons.prems by (auto simp: canon_def)
  have cond: "c \<noteq> ''..'' \<or> (\<not> rooted \<and> acc = []) \<or> (acc \<noteq> [] \<and> last acc = ''..'')"
  proof (cases "c = ''..''")
    case True
    with Cons.prems have "\<not> rooted" and "lead (acc @ ''..'' # xs)"
      by (auto simp: canon_def split: if_splits)
    from lead_before_dotdot [OF this(2)] \<open>\<not> rooted\<close> show ?thesis by auto
  next
    case False
    then show ?thesis by simp
  qed
  have "canon rooted ((acc @ [c]) @ xs)" using Cons.prems by simp
  from Cons.IH [OF this] c cond show ?case by simp
qed

lemma norm_comps_skip_empty: "norm_comps rooted (replicate n [] @ xs) acc = norm_comps rooted xs acc"
  by (induction n) simp_all

lemma split_sep_slashes:
  "split_sep (replicate n CHR ''/'' @ s) = replicate n [] @ split_sep s"
  by (induction n) simp_all

lemma join_sep_no_leading_slash:
  "\<forall>c\<in>set xs. c \<noteq> [] \<and> CHR ''/'' \<notin> set c \<Longrightarrow> \<not> prefix ''/'' (join_sep xs)"
  by (induction xs rule: join_sep.induct) (auto simp: prefix_Cons neq_Nil_conv)

lemma initial_slashes_le: "initial_slashes_of path \<le> 2"
  by (simp add: initial_slashes_of_def)

lemma initial_slashes_rebuilt:
  "\<not> prefix ''/'' j \<Longrightarrow> n \<le> 2 \<Longrightarrow> initial_slashes_of (replicate n CHR ''/'' @ j) = n"
proof -
  assume j: "\<not> prefix ''/'' j" and "n \<le> 2"
  then consider "n = 0" | "n = 1" | "n = 2" by linarith
  then show ?thesis
  proof cases
    case 1
    with j show ?thesis by (simp add: initial_slashes_of_def)
  next
    case 2
    with j show ?thesis by (simp add: initial_slashes_of_def prefix_Cons)
  next
    case 3
    with j show ?thesis
      by (simp add: initial_slashes_of_def prefix_Cons numeral_2_eq_2)
  qed
qed

lemma normpath_dot: "normpath ''.'' = ''.''"
  by code_simp

lemma normpath_canon:
  assumes "path \<noteq> []"
  shows "canon (initial_slashes_of path \<noteq> 0)
           (norm_comps (initial_slashes_of path \<noteq> 0) (split_sep path) [])"
  by (rule norm_comps_canon) (auto simp: canon_def split_sep_slash_free)

lemma normpath_rebuilt:
  assumes c: "canon (n \<noteq> 0) xs" and n: "n \<le> 2"
    and p: "replicate n CHR ''/'' @ join_sep xs \<noteq> []"
  shows "normpath (replicate n CHR ''/'' @ join_sep xs) = replicate n CHR ''/'' @ join_sep xs"
proof -
  let ?p = "replicate n CHR ''/'' @ join_sep xs"
  have plain: "\<forall>c\<in>set xs. c \<noteq> [] \<and> CHR ''/'' \<notin> set c"
    using c by (auto simp: canon_def)
  have nl: "\<not> prefix ''/'' (join_sep xs)"
    using plain by (rule join_sep_no_leading_slash)
  have i: "initial_slashes_of ?p = n"
    using nl n by (rule initial_slashes_rebuilt)
  have "norm_comps (n \<noteq> 0) (split_sep (join_sep xs)) [] = xs"
  proof (cases "xs = []")
    case True
    then show ?thesis by simp
  next
    case False
    with plain have "split_sep (join_sep xs) = xs" by (simp add: split_join)
    moreover have "norm_comps (n \<noteq> 0) xs [] = [] @ xs"
      by (rule norm_comps_fixed) (use c in simp)
    ultimately show ?thesis by simp
  qed
  then have "norm_comps (n \<noteq> 0) (split_sep ?p) [] = xs"
    by (simp add: split_sep_slashes norm_comps_skip_empty)
  with p i show ?thesis
    by (simp add: normpath_def Let_def)
qed

lemma normpath_unfold:
  "path \<noteq> [] \<Longrightarrow>
   normpath path =
     (if replicate (initial_slashes_of path) CHR ''/''
           @ join_sep (norm_comps (initial_slashes_of path \<noteq> 0) (split_sep path) []) = []
      then ''.''
      else replicate (initial_slashes_of path) CHR ''/''
           @ join_sep (norm_comps (initial_slashes_of path \<noteq> 0) (split_sep path) []))"
  by (simp only: normpath_def Let_def if_False)

lemma normpath_idem: "normpath (normpath path) = normpath path"
proof (cases "path = []")
  case True
  have "normpath [] = ''.''" by (simp add: normpath_def)
  with True show ?thesis by (simp add: normpath_dot)
next
  case False
  let ?n = "initial_slashes_of path"
  let ?xs = "norm_comps (?n \<noteq> 0) (split_sep path) []"
  let ?p = "replicate ?n CHR ''/'' @ join_sep ?xs"
  show ?thesis
  proof (cases "?p = []")
    case True
    have "normpath path = ''.''"
      unfolding normpath_unfold [OF False] using True by (rule if_P)
    then show ?thesis by (simp only: normpath_dot)
  next
    case nonempty: False
    have np: "normpath path = ?p"
      unfolding normpath_unfold [OF False] using nonempty by (rule if_not_P)
    have "normpath ?p = ?p"
      using normpath_canon [OF \<open>path \<noteq> []\<close>] initial_slashes_le nonempty
      by (rule normpath_rebuilt)
    then show ?thesis by (simp only: np)
  qed
qed

text \<open>Normalising a path neither makes it absolute nor relative.\<close>

lemma isabs_normpath: "isabs (normpath path) = isabs path"
proof (cases "path = []")
  case True
  then show ?thesis by (simp add: normpath_def isabs_def)
next
  case False
  let ?n = "initial_slashes_of path"
  let ?xs = "norm_comps (?n \<noteq> 0) (split_sep path) []"
  have plain: "\<forall>c\<in>set ?xs. c \<noteq> [] \<and> CHR ''/'' \<notin> set c"
    using normpath_canon [OF False] by (auto simp: canon_def)
  have nl: "\<not> prefix ''/'' (join_sep ?xs)"
    using plain by (rule join_sep_no_leading_slash)
  have n: "(?n = 0) = (\<not> prefix ''/'' path)"
    by (simp add: initial_slashes_of_def)
  show ?thesis
  proof (cases "?n = 0")
    case True
    with False nl n show ?thesis
      by (simp add: normpath_def Let_def isabs_def)
  next
    case nz: False
    then have "prefix ''/'' (replicate ?n CHR ''/'' @ join_sep ?xs)"
      by (cases ?n) (simp_all add: prefix_Cons)
    with False nz n show ?thesis
      by (auto simp: normpath_def Let_def isabs_def)
  qed
qed

lemma first_seen_set: "set (first_seen xs) = set xs"
  by (induction xs) auto

lemma line_paths_normal: "p \<in> set (line_paths line rxs) \<Longrightarrow> normpath p = p"
  by (induction rxs) (auto simp: normpath_idem split: option.splits)

lemma candidate_paths_normal: "p \<in> set (candidate_paths lns) \<Longrightarrow> normpath p = p"
  by (auto simp: candidate_paths_def line_paths_normal)

text \<open>
  C9, as the code has it. Every record that \<^verbatim>\<open>generate_deps\<close> returns has a normalised
  path (\<^verbatim>\<open>normpath\<close> leaves it as it is) that passes the relevance filter and names a
  regular file. The path is stored as the trace has it, so it need not be absolute.
\<close>

theorem recorded_paths_normalised:
  assumes "generate_deps e cfg cmd fsys = Inr ((status, files), fs1, out, cmds)"
    and "(p, h, m) \<in> set files"
  shows "normpath p = p \<and> kept cfg fs1 p"
proof -
  from assms(1) obtain lns out1 where
    "parse_trace e cfg fs1 lns = Inr ((status, files), out1)"
    by (auto simp: generate_deps_def Let_def split: option.splits sum.splits)
  then have "files = map (record_of e fs1)
                       (first_seen (filter (kept cfg fs1) (candidate_paths lns)))"
    by (rule parse_trace_names)
  with assms(2) have "p \<in> set (first_seen (filter (kept cfg fs1) (candidate_paths lns)))"
    by (auto simp: record_of_def)
  then have "p \<in> set (candidate_paths lns)" and "kept cfg fs1 p"
    by (simp_all add: first_seen_set)
  then show ?thesis by (simp add: candidate_paths_normal)
qed

text \<open>
  \<^verbatim>\<open>cc a.c\<close> opens \<^verbatim>\<open>a.c\<close> in the working directory \<^verbatim>\<open>/w\<close>.
\<close>

theorem recorded_paths_normalised_witness:
  "generate_deps (demo_env (open_line ''a.c'') Map.empty) (demo_cfg [''.''] None False)
     ''cc a.c'' src_fs
   = Inr ((0, [(''a.c'', Some ''int x;'', MTime 5)]), src_fs, [],
          [''strace -f -o /tmp/trace -e trace=file,exit_group cc a.c''])
   \<and> (''a.c'', Some ''int x;'', MTime 5) \<in> set [(''a.c'', Some ''int x;'', MTime 5)]
   \<and> normpath ''a.c'' = ''a.c''
   \<and> kept (demo_cfg [''.''] None False) src_fs ''a.c''"
  using recorded_paths_normalised [OF generate_cc, of "''a.c''" "Some ''int x;''" "MTime 5"]
    generate_cc
  by simp

text \<open>
  C9 as stated fails. In that run the recorded path is \<^verbatim>\<open>a.c\<close>, which is not absolute.
\<close>

theorem relative_path_recorded:
  "generate_deps (demo_env (open_line ''a.c'') Map.empty) (demo_cfg [''.''] None False)
     ''cc a.c'' src_fs
   = Inr ((0, [(''a.c'', Some ''int x;'', MTime 5)]), src_fs, [],
          [''strace -f -o /tmp/trace -e trace=file,exit_group cc a.c''])
   \<and> \<not> isabs ''a.c''"
  by (simp add: generate_cc isabs_def)

end
